theory Spec2Isabelle
  imports Main "HOL-Library.Word" "HOL-Library.Sublist"
begin

section \<open>JavaScript strings\<close>

text \<open>
  A JavaScript string is a sequence of UTF-16 code units: \<open>length\<close>, \<open>substring\<close>,
  \<open>trim\<close>, \<open>includes\<close> and \<open>===\<close> all work on code units. The literals of
  \<open>App.tsx\<close> that reach a string value are ASCII; \<open>js\<close> embeds such a literal.
\<close>

type_synonym jschar = "16 word"
type_synonym jsstring = "jschar list"

definition js :: "string \<Rightarrow> jsstring" where
  "js s = map of_char s"

text \<open>\<open>Array.prototype.join\<close> on an array of strings.\<close>

fun join :: "jsstring \<Rightarrow> jsstring list \<Rightarrow> jsstring" where
  "join sep [] = []"
| "join sep [x] = x"
| "join sep (x # y # ys) = x @ sep @ join sep (y # ys)"

text \<open>
  A value interpolated into a template literal is converted with \<open>ToString\<close>; an
  optional string field that is absent is \<open>undefined\<close> and prints as that word.
\<close>

definition toString_opt :: "jsstring option \<Rightarrow> jsstring" where
  "toString_opt v = (case v of None \<Rightarrow> js ''undefined'' | Some s \<Rightarrow> s)"

section \<open>The data of \<open>App.tsx\<close>\<close>

record LogItem =
  log_id :: "int option"
  content :: jsstring
  log_type :: jsstring
  timestamp :: jsstring

record GitCommit =
  hash :: jsstring
  message :: jsstring
  author :: jsstring
  time :: int
  repo_name :: "jsstring option"
  diff :: "jsstring option"

record AppConfig =
  api_key :: jsstring
  git_paths :: "jsstring list"
  provider :: jsstring
  model :: jsstring
  base_url :: "jsstring option"
  custom_rules :: jsstring
  report_template :: jsstring
  deep_analysis :: bool

datatype tab = LogTab | ReviewTab | SettingsTab

datatype review_type = Analysis | Export

text \<open>The React state of the component \<open>App\<close>, one field per \<open>useState\<close>.\<close>

record AppState =
  activeTab :: tab
  logs :: "LogItem list"
  gitLogs :: "GitCommit list"
  newLog :: jsstring
  config :: AppConfig
  newGitPath :: jsstring
  reviewResult :: jsstring
  reviewMode :: review_type
  isAiLoading :: bool

section \<open>The prompt builder \<open>generatePrompt\<close>\<close>

definition nl :: jsstring where
  "nl = js ''\<newline>''"

text \<open>The callback of \<open>logs.map\<close>: \<open>`- ${l.content}`\<close>.\<close>

definition logLine :: "LogItem \<Rightarrow> jsstring" where
  "logLine l = js ''- '' @ content l"

definition logsText :: "LogItem list \<Rightarrow> jsstring" where
  "logsText ls = join nl (map logLine ls)"

text \<open>
  The callback of \<open>gitLogs.map\<close>. \<open>if (g.diff)\<close> is taken when the field holds a
  non-empty string: \<open>undefined\<close> and the empty string are both falsy.
\<close>

definition diffBlock :: "jsstring \<Rightarrow> jsstring" where
  "diffBlock d = nl @ js ''  Code Diff Summary:'' @ nl @ js ''```'' @ nl @ d @ nl @ js ''```''"

definition gitLine :: "GitCommit \<Rightarrow> jsstring" where
  "gitLine g =
     (let text = js ''- ['' @ toString_opt (repo_name g) @ js ''] '' @ message g
      in case diff g of
           None \<Rightarrow> text
         | Some d \<Rightarrow> if d \<noteq> [] then text @ diffBlock d else text)"

definition gitText :: "GitCommit list \<Rightarrow> jsstring" where
  "gitText gs = join nl (map gitLine gs)"

definition baseInstruction :: "AppConfig \<Rightarrow> review_type \<Rightarrow> jsstring" where
  "baseInstruction cfg ty =
     (if ty = Analysis
      then js ''Provide a comprehensive summary, 3 improvements, and 1 key knowledge point. If code diffs are provided, use them to explain technical details.''
      else js ''Strictly follow the format below:'' @ nl @ nl @ js ''Format Template:'' @ nl
             @ report_template cfg)"

text \<open>
  The returned template literal, line by line: it opens with a line break, every line is
  indented by eight blanks, and the closing backtick sits after six blanks.
\<close>

definition indent :: jsstring where
  "indent = js ''        ''"

definition generatePrompt :: "AppState \<Rightarrow> review_type \<Rightarrow> jsstring" where
  "generatePrompt st ty =
     nl @ indent @ js ''Context:'' @ nl
        @ indent @ js ''Manual Logs:'' @ nl
        @ indent @ logsText (logs st) @ nl
        @ indent @ nl
        @ indent @ js ''Git Commits:'' @ nl
        @ indent @ gitText (gitLogs st) @ nl
        @ indent @ nl
        @ indent @ js ''System Instruction:'' @ nl
        @ indent @ baseInstruction (config st) ty @ nl
        @ indent @ nl
        @ indent @ js ''Additional User Rules:'' @ nl
        @ indent @ custom_rules (config st) @ nl
        @ js ''      ''"

section \<open>The commit preview of the log tab\<close>

text \<open>
  \<open>{commit.diff && (<div ...>{commit.diff.substring(0, 150)}...</div>)}\<close>: the text node
  is the first 150 code units of the diff followed by three dots, and is rendered only
  for a truthy diff.
\<close>

definition substring0 :: "nat \<Rightarrow> jsstring \<Rightarrow> jsstring" where
  "substring0 n s = take n s"

definition diffPreview :: "GitCommit \<Rightarrow> jsstring option" where
  "diffPreview commit =
     (case diff commit of
        None \<Rightarrow> None
      | Some d \<Rightarrow> if d \<noteq> [] then Some (substring0 150 d @ js ''...'') else None)"

section \<open>The settings handlers\<close>

text \<open>\<open>updateConfig('git_paths', v)\<close>: \<open>setConfig(prev => ({ ...prev, git_paths: v }))\<close>.\<close>

definition updateConfig_git_paths :: "jsstring list \<Rightarrow> AppState \<Rightarrow> AppState" where
  "updateConfig_git_paths v st = st\<lparr>config := (config st)\<lparr>git_paths := v\<rparr>\<rparr>"

definition setNewGitPath :: "jsstring \<Rightarrow> AppState \<Rightarrow> AppState" where
  "setNewGitPath v st = st\<lparr>newGitPath := v\<rparr>"

text \<open>\<open>includes\<close> compares strings by value.\<close>

definition includes_js :: "jsstring list \<Rightarrow> jsstring \<Rightarrow> bool" where
  "includes_js xs x = (x \<in> set xs)"

definition addGitPath :: "AppState \<Rightarrow> AppState" where
  "addGitPath st =
     (if newGitPath st \<noteq> [] \<and> \<not> includes_js (git_paths (config st)) (newGitPath st)
      then setNewGitPath [] (updateConfig_git_paths (git_paths (config st) @ [newGitPath st]) st)
      else st)"

definition removeGitPath :: "jsstring \<Rightarrow> AppState \<Rightarrow> AppState" where
  "removeGitPath pathToRemove st =
     updateConfig_git_paths (filter (\<lambda>p. p \<noteq> pathToRemove) (git_paths (config st))) st"

text \<open>
  What a user can do to the repository list on the settings tab: type into the input
  (\<open>onChange\<close> calls \<open>setNewGitPath\<close>), press \<open>+\<close>, press the \<open>\<times>\<close> of an entry.
\<close>

datatype path_action = TypePath jsstring | PressAdd | PressRemove jsstring

fun path_step :: "path_action \<Rightarrow> AppState \<Rightarrow> AppState" where
  "path_step (TypePath v) st = setNewGitPath v st"
| "path_step PressAdd st = addGitPath st"
| "path_step (PressRemove p) st = removeGitPath p st"

definition path_run :: "path_action list \<Rightarrow> AppState \<Rightarrow> AppState" where
  "path_run acts st = fold path_step acts st"

section \<open>Handlers that talk to the backend\<close>

text \<open>
  \<open>invoke\<close> sends a command to the Tauri backend and resolves with its reply or
  rejects with an error. The backend is not part of \<open>App.tsx\<close>: it is a parameter here,
  a state \<open>'w\<close> of its own and one reply function per command. Every \<open>invoke\<close>,
  \<open>alert\<close> and \<open>console.error\<close> is appended to a trace, so that what a handler did
  can be read off the result.
\<close>

record AiRequest =
  req_provider :: jsstring
  req_api_key :: jsstring
  req_model :: jsstring
  req_prompt :: jsstring
  req_base_url :: "jsstring option"

datatype effect =
    Alert jsstring
  | ConsoleError jsstring
  | Invoke_save_log jsstring jsstring
  | Invoke_get_today_logs
  | Invoke_scan_git_repos "jsstring list" bool
  | Invoke_call_ai AiRequest

record 'w backend =
  save_log :: "jsstring \<Rightarrow> jsstring \<Rightarrow> 'w \<Rightarrow> (jsstring + unit) \<times> 'w"
  get_today_logs :: "'w \<Rightarrow> (jsstring + LogItem list) \<times> 'w"
  scan_git_repos :: "jsstring list \<Rightarrow> bool \<Rightarrow> 'w \<Rightarrow> (jsstring + GitCommit list) \<times> 'w"
  call_ai :: "AiRequest \<Rightarrow> 'w \<Rightarrow> (jsstring + jsstring) \<times> 'w"

record 'w sys =
  app :: AppState
  world :: 'w
  trace :: "effect list"

definition emit :: "effect \<Rightarrow> 'w sys \<Rightarrow> 'w sys" where
  "emit e s = s\<lparr>trace := trace s @ [e]\<rparr>"

definition alert :: "jsstring \<Rightarrow> 'w sys \<Rightarrow> 'w sys" where
  "alert msg s = emit (Alert msg) s"

definition loadLogs :: "'w backend \<Rightarrow> 'w sys \<Rightarrow> 'w sys" where
  "loadLogs be s =
     (let (reply, w) = get_today_logs be (world s);
          s1 = (emit Invoke_get_today_logs s)\<lparr>world := w\<rparr>
      in case reply of
           Inr todayLogs \<Rightarrow> s1\<lparr>app := (app s1)\<lparr>logs := todayLogs\<rparr>\<rparr>
         | Inl e \<Rightarrow> emit (ConsoleError e) s1)"

text \<open>
  \<open>String.prototype.trim\<close> removes the code units of \<open>WhiteSpace\<close> and
  \<open>LineTerminator\<close> from both ends.
\<close>

definition isWhiteSpace :: "jschar \<Rightarrow> bool" where
  "isWhiteSpace c =
     (c \<in> set [0x0009, 0x000A, 0x000B, 0x000C, 0x000D, 0x0020, 0x00A0, 0x1680,
               0x2000, 0x2001, 0x2002, 0x2003, 0x2004, 0x2005, 0x2006, 0x2007,
               0x2008, 0x2009, 0x200A, 0x2028, 0x2029, 0x202F, 0x205F, 0x3000, 0xFEFF])"

definition trim :: "jsstring \<Rightarrow> jsstring" where
  "trim s = rev (dropWhile isWhiteSpace (rev (dropWhile isWhiteSpace s)))"

definition handleAddLog :: "'w backend \<Rightarrow> 'w sys \<Rightarrow> 'w sys" where
  "handleAddLog be s =
     (if trim (newLog (app s)) = [] then s
      else
        let (reply, w) = save_log be (newLog (app s)) (js ''manual'') (world s);
            s1 = (emit (Invoke_save_log (newLog (app s)) (js ''manual'')) s)\<lparr>world := w\<rparr>
        in case reply of
             Inr _ \<Rightarrow> loadLogs be (s1\<lparr>app := (app s1)\<lparr>newLog := []\<rparr>\<rparr>)
           | Inl e \<Rightarrow> alert (js ''Failed to save log: '' @ e) s1)"

text \<open>A non-negative integer printed in decimal, as \<open>${commits.length}\<close> does.\<close>

fun decimal :: "nat \<Rightarrow> jsstring" where
  "decimal n =
     (if n < 10 then [of_nat (48 + n)] else decimal (n div 10) @ [of_nat (48 + n mod 10)])"

definition handleSyncGit :: "'w backend \<Rightarrow> 'w sys \<Rightarrow> 'w sys" where
  "handleSyncGit be s =
     (if length (git_paths (config (app s))) = 0
      then
        let s1 = alert (js ''Please configure Git Repo Paths in Settings first.'') s
        in s1\<lparr>app := (app s1)\<lparr>activeTab := SettingsTab\<rparr>\<rparr>
      else
        let paths = git_paths (config (app s));
            deepAnalysis = deep_analysis (config (app s));
            (reply, w) = scan_git_repos be paths deepAnalysis (world s);
            s1 = (emit (Invoke_scan_git_repos paths deepAnalysis) s)\<lparr>world := w\<rparr>
        in case reply of
             Inr commits \<Rightarrow>
               (let s2 = s1\<lparr>app := (app s1)\<lparr>gitLogs := commits\<rparr>\<rparr>
                in if deepAnalysis
                   then alert (js ''Synced '' @ decimal (length commits)
                                 @ js '' commits with deep analysis.'') s2
                   else s2)
           | Inl e \<Rightarrow> alert (js ''Git Sync Failed: '' @ e) s1)"

definition handleAiReview :: "'w backend \<Rightarrow> review_type \<Rightarrow> 'w sys \<Rightarrow> 'w sys" where
  "handleAiReview be mode s =
     (if api_key (config (app s)) = []
      then
        let s1 = alert (js ''Please configure API Key in Settings first.'') s
        in s1\<lparr>app := (app s1)\<lparr>activeTab := SettingsTab\<rparr>\<rparr>
      else
        let s1 = s\<lparr>app := (app s)\<lparr>reviewMode := mode, isAiLoading := True\<rparr>\<rparr>;
            prompt = generatePrompt (app s) mode;
            request = \<lparr>req_provider = provider (config (app s)),
                       req_api_key = api_key (config (app s)),
                       req_model = model (config (app s)),
                       req_prompt = prompt,
                       req_base_url = base_url (config (app s))\<rparr>;
            (reply, w) = call_ai be request (world s1);
            s2 = (emit (Invoke_call_ai request) s1)\<lparr>world := w\<rparr>;
            s3 = (case reply of
                    Inr response \<Rightarrow> s2\<lparr>app := (app s2)\<lparr>reviewResult := response\<rparr>\<rparr>
                  | Inl e \<Rightarrow> alert (js ''AI Action Failed: '' @ e) s2)
        in s3\<lparr>app := (app s3)\<lparr>isAiLoading := False\<rparr>\<rparr>)"

definition is_call_ai :: "effect \<Rightarrow> bool" where
  "is_call_ai e = (case e of Invoke_call_ai _ \<Rightarrow> True | _ \<Rightarrow> False)"

definition is_save_log :: "effect \<Rightarrow> bool" where
  "is_save_log e = (case e of Invoke_save_log _ _ \<Rightarrow> True | _ \<Rightarrow> False)"

section \<open>The activity aggregator behind \<open>scan_git_repos\<close>\<close>

text \<open>
  The command \<open>scan_git_repos\<close> belongs to the Rust backend; \<open>App.tsx\<close> only calls
  it. The definitions of this section follow sections 3, 4.1 to 4.4 and 6 of the
  specification, each marked as such.
\<close>

text \<open>Modelled from the spec: the typed failures of the Repository Walker (4.1).\<close>

datatype repo_error = RepositoryNotFound | RepositoryCorrupt

text \<open>
  Modelled from the spec: what the Diff Summarizer (4.3) finds for one commit, namely a
  textual diff against the parent, a root commit without parent, binary or unreadable
  content, or a failure to produce a diff.
\<close>

datatype change = TextChange jsstring | RootChange | BinaryChange | DiffUnavailable

text \<open>
  Modelled from the spec: a commit as the repository stores it (3, Commit, without the
  fields the aggregator adds), and an opened repository (4.1): its identity and the
  history reachable from the checked-out branch tip.
\<close>

record RawCommit =
  raw_hash :: jsstring
  raw_message :: jsstring
  raw_author :: jsstring
  raw_time :: int
  raw_change :: change

record Repository =
  identity :: jsstring
  history :: "RawCommit list"

text \<open>Modelled from the spec: the half-open ActivityWindow \<open>[start, end)\<close> (3).\<close>

record ActivityWindow =
  window_start :: int
  window_end :: int

definition in_window :: "ActivityWindow \<Rightarrow> int \<Rightarrow> bool" where
  "in_window w t = (window_start w \<le> t \<and> t < window_end w)"

text \<open>
  Modelled from the spec: what the aggregator takes from its surroundings. The file
  system answers an attempt to open a path (4.1); the display name of a repository
  reference is derived from its path (3); the maximum length of a diff summary and the
  truncation marker are policy constants (4.3); the default window is the local calendar
  day containing now (3).
\<close>

record ScanEnv =
  open_repository :: "jsstring \<Rightarrow> repo_error + Repository"
  display_name :: "jsstring \<Rightarrow> jsstring"
  max_diff_chars :: nat
  truncation_marker :: jsstring
  default_window :: ActivityWindow

text \<open>
  Modelled from the spec: the size bound of the Diff Summarizer (4.3). Output longer
  than the maximum is cut to the maximum and the marker is appended.
\<close>

definition truncate_diff :: "ScanEnv \<Rightarrow> jsstring \<Rightarrow> jsstring" where
  "truncate_diff env t =
     (if length t > max_diff_chars env
      then take (max_diff_chars env) t @ truncation_marker env
      else t)"

text \<open>
  Modelled from the spec: the Diff Summarizer (4.3). A root commit reports the initial
  commit marker, binary content a fixed sentinel, and a failure degrades to no diff.
\<close>

definition summarize_diff :: "ScanEnv \<Rightarrow> change \<Rightarrow> jsstring option" where
  "summarize_diff env ch =
     (case ch of
        TextChange t \<Rightarrow> Some (truncate_diff env t)
      | RootChange \<Rightarrow> Some (truncate_diff env (js ''initial commit''))
      | BinaryChange \<Rightarrow> Some (truncate_diff env (js ''binary file changed''))
      | DiffUnavailable \<Rightarrow> None)"

text \<open>Modelled from the spec: lexical order of hashes, the tie-break of 4.2 and 4.4.\<close>

fun lex_le :: "jsstring \<Rightarrow> jsstring \<Rightarrow> bool" where
  "lex_le [] ys = True"
| "lex_le (x # xs) [] = False"
| "lex_le (x # xs) (y # ys) = (x < y \<or> (x = y \<and> lex_le xs ys))"

text \<open>
  Modelled from the spec: the order of the merged feed (4.4, step 4), timestamp
  descending and ties broken by hash. Commits travel with the identity of their
  repository until duplicates are removed.
\<close>

definition commit_before :: "jsstring \<times> GitCommit \<Rightarrow> jsstring \<times> GitCommit \<Rightarrow> bool" where
  "commit_before a b =
     (time (snd a) > time (snd b)
      \<or> (time (snd a) = time (snd b) \<and> lex_le (hash (snd a)) (hash (snd b))))"

fun insert_commit ::
  "jsstring \<times> GitCommit \<Rightarrow> (jsstring \<times> GitCommit) list \<Rightarrow> (jsstring \<times> GitCommit) list" where
  "insert_commit c [] = [c]"
| "insert_commit c (x # xs) =
     (if commit_before c x then c # x # xs else x # insert_commit c xs)"

definition sort_commits :: "(jsstring \<times> GitCommit) list \<Rightarrow> (jsstring \<times> GitCommit) list" where
  "sort_commits cs = foldr insert_commit cs []"

text \<open>
  Modelled from the spec: the Commit Extractor (4.2), the commits of the history whose
  timestamp lies in the window, and the attaching of the diff summary (4.4, step 3): with
  deep analysis the summary, without it the diff field stays unset.
\<close>

definition to_commit :: "ScanEnv \<Rightarrow> jsstring \<Rightarrow> bool \<Rightarrow> RawCommit \<Rightarrow> GitCommit" where
  "to_commit env path deepAnalysis raw =
     \<lparr>hash = raw_hash raw, message = raw_message raw, author = raw_author raw,
      time = raw_time raw, repo_name = Some (display_name env path),
      diff = (if deepAnalysis then summarize_diff env (raw_change raw) else None)\<rparr>"

definition extract_commits :: "Repository \<Rightarrow> ActivityWindow \<Rightarrow> RawCommit list" where
  "extract_commits repo w = filter (\<lambda>raw. in_window w (raw_time raw)) (history repo)"

text \<open>
  Modelled from the spec: steps 1 to 3 of the aggregator (4.4) for one configured path.
  A path that cannot be opened gives a warning keyed by the path and no commits.
\<close>

definition scan_repository ::
  "ScanEnv \<Rightarrow> ActivityWindow \<Rightarrow> bool \<Rightarrow> jsstring
     \<Rightarrow> (jsstring \<times> GitCommit) list \<times> (jsstring \<times> repo_error) list" where
  "scan_repository env w deepAnalysis path =
     (case open_repository env path of
        Inl e \<Rightarrow> ([], [(path, e)])
      | Inr repo \<Rightarrow>
          (map (\<lambda>raw. (identity repo, to_commit env path deepAnalysis raw))
               (extract_commits repo w), []))"

text \<open>
  Modelled from the spec: step 5 of the aggregator (4.4), deduplication by
  (repository identity, hash) keeping the first occurrence.
\<close>

definition commit_key :: "jsstring \<times> GitCommit \<Rightarrow> jsstring \<times> jsstring" where
  "commit_key c = (fst c, hash (snd c))"

fun dedup_commits ::
  "(jsstring \<times> jsstring) list \<Rightarrow> (jsstring \<times> GitCommit) list \<Rightarrow> (jsstring \<times> GitCommit) list" where
  "dedup_commits seen [] = []"
| "dedup_commits seen (c # cs) =
     (if commit_key c \<in> set seen then dedup_commits seen cs
      else c # dedup_commits (commit_key c # seen) cs)"

text \<open>
  Modelled from the spec: the Activity Aggregator (4.4). The per-repository sequences
  are concatenated in the configured order, sorted, and deduplicated; the warnings
  accompany the result.
\<close>

record ScanResult =
  tagged :: "(jsstring \<times> GitCommit) list"
  warnings :: "(jsstring \<times> repo_error) list"

definition aggregate :: "ScanEnv \<Rightarrow> jsstring list \<Rightarrow> ActivityWindow \<Rightarrow> bool \<Rightarrow> ScanResult" where
  "aggregate env paths w deepAnalysis =
     (let per_repo = map (scan_repository env w deepAnalysis) paths
      in \<lparr>tagged = dedup_commits [] (sort_commits (concat (map fst per_repo))),
          warnings = concat (map snd per_repo)\<rparr>)"

text \<open>
  Modelled from the spec: the operation \<open>scan(paths, deepAnalysis)\<close> exposed to the
  presentation layer (6), over the default window, and the commits it returns.
\<close>

definition scan :: "ScanEnv \<Rightarrow> jsstring list \<Rightarrow> bool \<Rightarrow> ScanResult" where
  "scan env paths deepAnalysis = aggregate env paths (default_window env) deepAnalysis"

definition commits :: "ScanResult \<Rightarrow> GitCommit list" where
  "commits r = map snd (tagged r)"

section \<open>Sections occurring in order\<close>

text \<open>
  \<open>in_order ns s\<close>: the strings \<open>ns\<close> occur in \<open>s\<close> one after the other without
  overlap. Each one is searched from where the match of the previous one ended.
\<close>

fun strip_prefix :: "'a list \<Rightarrow> 'a list \<Rightarrow> 'a list option" where
  "strip_prefix [] s = Some s"
| "strip_prefix (n # ns) [] = None"
| "strip_prefix (n # ns) (c # cs) = (if n = c then strip_prefix ns cs else None)"

fun find_after :: "'a list \<Rightarrow> 'a list \<Rightarrow> 'a list option" where
  "find_after n [] = (if n = [] then Some [] else None)"
| "find_after n (c # cs) =
     (case strip_prefix n (c # cs) of Some r \<Rightarrow> Some r | None \<Rightarrow> find_after n cs)"

fun in_order :: "'a list list \<Rightarrow> 'a list \<Rightarrow> bool" where
  "in_order [] s = True"
| "in_order (n # ns) s = (case find_after n s of None \<Rightarrow> False | Some r \<Rightarrow> in_order ns r)"

text \<open>
  The parts of one entry of the commit list: the bullet line and, when the diff is
  present, the lines of the diff block.
\<close>

definition commit_parts :: "GitCommit \<Rightarrow> jsstring list" where
  "commit_parts g =
     (js ''- ['' @ toString_opt (repo_name g) @ js ''] '' @ message g)
     # (case diff g of
          None \<Rightarrow> []
        | Some d \<Rightarrow>
            if d \<noteq> [] then [js ''  Code Diff Summary:'', js ''```'', d, js ''```''] else [])"

section \<open>The instruction block and the empty sections\<close>

text \<open>
  The instruction of export mode around a template, the directive of analysis mode, and
  the instruction block as it stands in the prompt: from its header to the header of the
  user rules.
\<close>

definition export_instruction :: "jsstring \<Rightarrow> jsstring" where
  "export_instruction template =
     js ''Strictly follow the format below:'' @ nl @ nl @ js ''Format Template:'' @ nl @ template"

definition analysis_instruction :: jsstring where
  "analysis_instruction = js ''Provide a comprehensive summary, 3 improvements, and 1 key knowledge point. If code diffs are provided, use them to explain technical details.''"

definition instruction_block :: "jsstring \<Rightarrow> jsstring" where
  "instruction_block instr =
     js ''System Instruction:'' @ nl @ indent @ instr @ nl @ indent @ nl
       @ indent @ js ''Additional User Rules:''"

text \<open>
  The prompt as the specification describes it (4.5), written without the functions of
  \<open>generatePrompt\<close>: the bullet of a manual log, the entry of a commit (its parts, one
  per line), the instruction of a mode, a section (header line and body line), and the
  layout of the sections.
\<close>

definition log_bullet :: "LogItem \<Rightarrow> jsstring" where
  "log_bullet l = js ''- '' @ content l"

definition commit_entry :: "GitCommit \<Rightarrow> jsstring" where
  "commit_entry g = join (js ''\<newline>'') (commit_parts g)"

definition instruction_of :: "review_type \<Rightarrow> jsstring \<Rightarrow> jsstring" where
  "instruction_of ty template =
     (case ty of Analysis \<Rightarrow> analysis_instruction | Export \<Rightarrow> export_instruction template)"

definition prompt_section :: "jsstring \<Rightarrow> jsstring \<Rightarrow> jsstring" where
  "prompt_section header body =
     js ''        '' @ header @ js ''\<newline>'' @ js ''        '' @ body @ js ''\<newline>''"

definition blank_line :: jsstring where
  "blank_line = js ''        '' @ js ''\<newline>''"

definition prompt_layout :: "jsstring \<Rightarrow> jsstring \<Rightarrow> jsstring \<Rightarrow> jsstring \<Rightarrow> jsstring" where
  "prompt_layout log_body commit_body instr rules =
     js ''\<newline>'' @ js ''        '' @ js ''Context:'' @ js ''\<newline>''
       @ prompt_section (js ''Manual Logs:'') log_body
       @ blank_line
       @ prompt_section (js ''Git Commits:'') commit_body
       @ blank_line
       @ prompt_section (js ''System Instruction:'') instr
       @ blank_line
       @ prompt_section (js ''Additional User Rules:'') rules
       @ js ''      ''"

text \<open>The sections of the prompt in the order the specification fixes (4.5).\<close>

definition prompt_sections :: "AppState \<Rightarrow> review_type \<Rightarrow> jsstring list" where
  "prompt_sections st ty =
     [js ''Context:'', js ''Manual Logs:'']
     @ map log_bullet (logs st)
     @ [js ''Git Commits:'']
     @ concat (map commit_parts (gitLogs st))
     @ [js ''System Instruction:'', instruction_of ty (report_template (config st)),
        js ''Additional User Rules:'', custom_rules (config st)]"

text \<open>
  A section with an empty body: its header, a line that holds the indentation only, the
  blank separator line, and the header of the next section.
\<close>

definition empty_logs_section :: jsstring where
  "empty_logs_section =
     js ''Manual Logs:'' @ nl @ indent @ nl @ indent @ nl @ indent @ js ''Git Commits:''"

definition empty_commits_section :: jsstring where
  "empty_commits_section =
     js ''Git Commits:'' @ nl @ indent @ nl @ indent @ nl @ indent @ js ''System Instruction:''"

definition section_headers :: "jsstring list" where
  "section_headers =
     [js ''Context:'', js ''Manual Logs:'', js ''Git Commits:'', js ''System Instruction:'',
      js ''Additional User Rules:'']"

section \<open>Hashes identify commits\<close>

text \<open>
  The data model of the specification (3): a hash is unique within a repository, so
  two stored commits with the same hash in repositories of the same identity are the
  same commit and carry the same change. The predicate says so of the configured paths.
\<close>

definition hash_identifies_change :: "ScanEnv \<Rightarrow> jsstring list \<Rightarrow> bool" where
  "hash_identifies_change env paths =
     (\<forall>p\<in>set paths. \<forall>q\<in>set paths.
        case (open_repository env p, open_repository env q) of
          (Inr r, Inr s) \<Rightarrow>
            identity r = identity s \<longrightarrow>
              (\<forall>a\<in>set (history r). \<forall>b\<in>set (history s).
                 raw_hash a = raw_hash b \<longrightarrow> raw_change a = raw_change b)
        | _ \<Rightarrow> True)"

section \<open>Example data\<close>

text \<open>
  One repository configured under two spellings of its path and one path that does not
  exist; a backend that stores logs in a list and answers a scan with the aggregator.
\<close>

definition demo_repo :: Repository where
  "demo_repo = \<lparr>identity = js ''/home/dev/app'',
     history =
       [\<lparr>raw_hash = js ''b2'', raw_message = js ''Add parser'', raw_author = js ''dev'',
          raw_time = 200, raw_change = TextChange (js ''+line one of a long change'')\<rparr>,
        \<lparr>raw_hash = js ''a1'', raw_message = js ''Initial'', raw_author = js ''dev'',
          raw_time = 100, raw_change = RootChange\<rparr>,
        \<lparr>raw_hash = js ''00'', raw_message = js ''Old'', raw_author = js ''dev'',
          raw_time = 5, raw_change = DiffUnavailable\<rparr>]\<rparr>"

definition demo_raw :: RawCommit where
  "demo_raw = \<lparr>raw_hash = js ''b2'', raw_message = js ''Add parser'', raw_author = js ''dev'',
     raw_time = 200, raw_change = TextChange (js ''+line one of a long change'')\<rparr>"

definition demo_env :: ScanEnv where
  "demo_env = \<lparr>open_repository =
       (\<lambda>p. if p = js ''/home/dev/app'' \<or> p = js ''/home/dev/./app'' then Inr demo_repo
            else Inl RepositoryNotFound),
     display_name = (\<lambda>p. js ''app''),
     max_diff_chars = 10,
     truncation_marker = js ''[cut]'',
     default_window = \<lparr>window_start = 50, window_end = 300\<rparr>\<rparr>"

definition demo_paths :: "jsstring list" where
  "demo_paths = [js ''/home/dev/app'', js ''/home/dev/./app'', js ''/nowhere'']"

definition demo_commit :: GitCommit where
  "demo_commit = \<lparr>hash = js ''b2'', message = js ''Add parser'', author = js ''dev'',
     time = 200, repo_name = Some (js ''app''), diff = Some (js ''+line one [cut]'')\<rparr>"

definition demo_backend :: "ScanEnv \<Rightarrow> (LogItem list) backend" where
  "demo_backend env =
     \<lparr>save_log = (\<lambda>c ty w. (Inr (), w @ [\<lparr>log_id = Some (int (length w)), content = c,
                      log_type = ty, timestamp = js ''2025-01-01 09:00:00''\<rparr>])),
      get_today_logs = (\<lambda>w. (Inr w, w)),
      scan_git_repos = (\<lambda>paths deepAnalysis w. (Inr (commits (scan env paths deepAnalysis)), w)),
      call_ai = (\<lambda>request w. (Inr (js ''Summary''), w))\<rparr>"

definition demo_config :: AppConfig where
  "demo_config = \<lparr>api_key = js ''sk-1'', git_paths = demo_paths,
     provider = js ''openai'', model = js ''gpt-4o'', base_url = None,
     custom_rules = js ''Be brief'', report_template = js ''1. Progress'',
     deep_analysis = False\<rparr>"

definition demo_state :: AppState where
  "demo_state = \<lparr>activeTab = LogTab,
     logs = [\<lparr>log_id = Some 1, content = js ''Fixed login bug'', log_type = js ''manual'',
              timestamp = js ''2025-01-01 09:00:00''\<rparr>],
     gitLogs = [\<lparr>hash = js ''abc'', message = js ''init'', author = js ''me'', time = 10,
                 repo_name = Some (js ''MyRepo''), diff = Some (js ''+x'')\<rparr>],
     newLog = js ''Wrote tests'', config = demo_config, newGitPath = js ''/home/dev/app'',
     reviewResult = js ''old review'', reviewMode = Analysis, isAiLoading = False\<rparr>"

definition demo_sys :: "(LogItem list) sys" where
  "demo_sys = \<lparr>app = demo_state, world = [], trace = []\<rparr>"

definition blank_state :: AppState where
  "blank_state = demo_state\<lparr>logs := [], gitLogs := []\<rparr>"

definition busy_state :: AppState where
  "busy_state = demo_state\<lparr>activeTab := ReviewTab, newLog := js ''draft'', isAiLoading := True,
     config := demo_config\<lparr>api_key := [], model := js ''other''\<rparr>\<rparr>"

definition blank_input_sys :: "(LogItem list) sys" where
  "blank_input_sys = demo_sys\<lparr>app := demo_state\<lparr>newLog := js '' '' @ [0x0009, 0x3000]\<rparr>\<rparr>"

definition no_key_sys :: "(LogItem list) sys" where
  "no_key_sys = demo_sys\<lparr>app := demo_state\<lparr>config := demo_config\<lparr>api_key := []\<rparr>\<rparr>\<rparr>"

definition demo_actions :: "path_action list" where
  "demo_actions =
     [PressAdd, TypePath (js ''/srv/tool''), PressAdd, PressAdd, PressRemove (js ''/nowhere'')]"

section \<open>Properties of the matcher \<open>in_order\<close>\<close>

lemma strip_prefix_Some: "strip_prefix n s = Some r \<longleftrightarrow> s = n @ r"
  by (induction n s rule: strip_prefix.induct) auto

lemma find_after_split: "find_after n s = Some r \<Longrightarrow> \<exists>a. s = a @ n @ r"
proof (induction s)
  case Nil
  then show ?case by (auto split: if_splits)
next
  case (Cons c cs)
  show ?case
  proof (cases "strip_prefix n (c # cs)")
    case None
    with Cons.prems have "find_after n cs = Some r" by simp
    then obtain a where "cs = a @ n @ r" using Cons.IH by blast
    then have "c # cs = (c # a) @ n @ r" by simp
    then show ?thesis by blast
  next
    case (Some r')
    with Cons.prems have "r' = r" by simp
    with Some have "c # cs = [] @ n @ r" by (simp add: strip_prefix_Some)
    then show ?thesis by blast
  qed
qed

lemma find_after_append: "\<exists>r. find_after n (a @ n @ b) = Some r \<and> suffix b r"
proof (induction a)
  case Nil
  show ?case
  proof (cases "n @ b")
    case Nil
    then show ?thesis by simp
  next
    case (Cons c cs)
    have "strip_prefix n (n @ b) = Some b" by (simp add: strip_prefix_Some)
    then show ?thesis using Cons by simp
  qed
next
  case (Cons x a)
  show ?case
  proof (cases "strip_prefix n (x # a @ n @ b)")
    case None
    then show ?thesis using Cons.IH by simp
  next
    case (Some r)
    then have eq: "x # a @ n @ b = n @ r" by (simp add: strip_prefix_Some)
    have "suffix b (x # a @ n @ b)" by (metis append_Cons append_assoc suffixI)
    moreover have "suffix r (x # a @ n @ b)" using eq by (simp add: suffixI)
    moreover have "length b \<le> length r"
    proof -
      have "length (x # a @ n @ b) = length (n @ r)" using eq by simp
      then show ?thesis by simp
    qed
    ultimately have "suffix b r" by (rule suffix_length_suffix)
    then show ?thesis using Some by simp
  qed
qed

lemma find_after_mono:
  assumes "find_after n s = Some r" and "suffix s t"
  shows "\<exists>r'. find_after n t = Some r' \<and> suffix r r'"
proof -
  obtain a where "s = a @ n @ r" using find_after_split [OF assms(1)] by blast
  moreover obtain p where "t = p @ s" using assms(2) by (auto simp: suffix_def)
  ultimately have "t = (p @ a) @ n @ r" by simp
  then show ?thesis using find_after_append [of n "p @ a" r] by simp
qed

lemma in_order_mono: "in_order ns s \<Longrightarrow> suffix s t \<Longrightarrow> in_order ns t"
proof (induction ns arbitrary: s t)
  case Nil
  then show ?case by simp
next
  case (Cons n ns)
  from Cons.prems(1) obtain r where r: "find_after n s = Some r" "in_order ns r"
    by (auto split: option.splits)
  from find_after_mono [OF r(1) Cons.prems(2)]
  obtain r' where r': "find_after n t = Some r'" "suffix r r'" by blast
  from Cons.IH [OF r(2) r'(2)] r'(1) show ?case by simp
qed

lemma in_order_skip: "in_order ns b \<Longrightarrow> in_order ns (a @ b)"
  by (erule in_order_mono) (simp add: suffix_def)

lemma in_order_step: "in_order ns b \<Longrightarrow> in_order (n # ns) (a @ n @ b)"
proof -
  assume b: "in_order ns b"
  obtain r where r: "find_after n (a @ n @ b) = Some r" "suffix b r"
    using find_after_append [of n a b] by blast
  from in_order_mono [OF b r(2)] r(1) show ?thesis by simp
qed

lemma in_order_here: "in_order ns b \<Longrightarrow> in_order (n # ns) (n @ b)"
  using in_order_step [of ns b n "[]"] by simp

lemma in_order_line: "in_order ns b \<Longrightarrow> in_order (n # ns) (a1 @ a2 @ n @ b)"
  using in_order_step [of ns b n "a1 @ a2"] by simp

lemma in_order_last: "in_order [n] (a @ n)"
  using in_order_step [of "[]" "[]" n a] by simp

lemma in_order_skip2: "in_order ns b \<Longrightarrow> in_order ns (a1 @ a2 @ b)"
  by (intro in_order_skip)

lemma in_order_append:
  "in_order ms s \<Longrightarrow> in_order ns t \<Longrightarrow> in_order (ms @ ns) (s @ t)"
proof (induction ms arbitrary: s)
  case Nil
  then show ?case by (simp add: in_order_skip)
next
  case (Cons m ms)
  from Cons.prems(1) obtain r where r: "find_after m s = Some r" "in_order ms r"
    by (auto split: option.splits)
  obtain a where a: "s = a @ m @ r" using find_after_split [OF r(1)] by blast
  have "in_order (ms @ ns) (r @ t)" using Cons.IH [OF r(2) Cons.prems(2)] .
  then have "in_order (m # ms @ ns) (a @ m @ r @ t)" by (rule in_order_step)
  then show ?case using a by simp
qed

lemma in_order_iff:
  "in_order ns s \<longleftrightarrow>
     (\<exists>gaps rest. length gaps = length ns \<and> s = concat (map2 (@) gaps ns) @ rest)"
proof
  show "in_order ns s \<Longrightarrow>
          \<exists>gaps rest. length gaps = length ns \<and> s = concat (map2 (@) gaps ns) @ rest"
  proof (induction ns arbitrary: s)
    case Nil
    then show ?case by simp
  next
    case (Cons n ns)
    from Cons.prems obtain r where r: "find_after n s = Some r" "in_order ns r"
      by (auto split: option.splits)
    obtain a where a: "s = a @ n @ r" using find_after_split [OF r(1)] by blast
    from Cons.IH [OF r(2)] obtain gaps rest where
      g: "length gaps = length ns" "r = concat (map2 (@) gaps ns) @ rest" by blast
    have "length (a # gaps) = length (n # ns)" using g by simp
    moreover have "s = concat (map2 (@) (a # gaps) (n # ns)) @ rest"
      using a g by simp
    ultimately show ?case by blast
  qed
next
  show "\<exists>gaps rest. length gaps = length ns \<and> s = concat (map2 (@) gaps ns) @ rest
          \<Longrightarrow> in_order ns s"
  proof (induction ns arbitrary: s)
    case Nil
    then show ?case by simp
  next
    case (Cons n ns)
    then obtain gaps rest where
      g: "length gaps = length (n # ns)" "s = concat (map2 (@) gaps (n # ns)) @ rest"
      by blast
    then obtain a gaps' where gs: "gaps = a # gaps'" by (cases gaps) auto
    have "in_order ns (concat (map2 (@) gaps' ns) @ rest)"
      using Cons.IH g(1) gs by auto
    then have "in_order (n # ns) (a @ n @ concat (map2 (@) gaps' ns) @ rest)"
      by (rule in_order_step)
    then show ?case using g(2) gs by simp
  qed
qed

lemma in_order_join:
  "list_all2 in_order pss ts \<Longrightarrow> in_order (concat pss) (join sep ts)"
proof (induction sep ts arbitrary: pss rule: join.induct)
  case (1 sep)
  then show ?case by simp
next
  case (2 sep x)
  then obtain ps where "pss = [ps]" "in_order ps x"
    by (auto simp: list_all2_Cons2)
  then show ?case using in_order_append [of ps x "[]" "[]"] by simp
next
  case (3 sep x y ys)
  from "3.prems" obtain ps pss' where p: "pss = ps # pss'" "in_order ps x"
    "list_all2 in_order pss' (y # ys)"
    by (auto simp: list_all2_Cons2)
  have "in_order (concat pss') (join sep (y # ys))" using "3.IH" [OF p(3)] .
  then have "in_order (concat pss') (sep @ join sep (y # ys))" by (rule in_order_skip)
  with p(2) have "in_order (ps @ concat pss') (x @ sep @ join sep (y # ys))"
    by (rule in_order_append)
  then show ?case using p(1) by simp
qed

lemma in_order_self: "in_order [x] x"
  using in_order_here [of "[]" "[]" x] by simp

lemma in_order_logsText: "in_order (map logLine ls) (logsText ls)"
proof -
  have "list_all2 in_order (map (\<lambda>l. [logLine l]) ls) (map logLine ls)"
    by (simp add: list_all2_map1 list_all2_map2 list_all2_same in_order_self del: in_order.simps)
  then have "in_order (concat (map (\<lambda>l. [logLine l]) ls)) (join nl (map logLine ls))"
    by (rule in_order_join)
  moreover have "concat (map (\<lambda>l. [logLine l]) ls) = map logLine ls"
    by (induction ls) auto
  ultimately show ?thesis by (simp add: logsText_def)
qed

lemma in_order_gitLine: "in_order (commit_parts g) (gitLine g)"
proof (cases "diff g")
  case None
  then show ?thesis by (simp add: commit_parts_def gitLine_def in_order_self del: in_order.simps)
next
  case (Some d)
  show ?thesis
  proof (cases "d = []")
    case True
    with Some show ?thesis
      by (simp add: commit_parts_def gitLine_def in_order_self del: in_order.simps)
  next
    case False
    have "in_order [js ''  Code Diff Summary:'', js ''```'', d, js ''```''] (diffBlock d)"
      unfolding diffBlock_def
      apply (rule in_order_step)
      apply (rule in_order_step)
      apply (rule in_order_step)
      apply (rule in_order_last)
      done
    then have "in_order ((js ''- ['' @ toString_opt (repo_name g) @ js ''] '' @ message g)
                  # [js ''  Code Diff Summary:'', js ''```'', d, js ''```''])
                ((js ''- ['' @ toString_opt (repo_name g) @ js ''] '' @ message g) @ diffBlock d)"
      by (rule in_order_here)
    with Some False show ?thesis
      by (simp add: commit_parts_def gitLine_def Let_def del: in_order.simps)
  qed
qed

lemma in_order_gitText: "in_order (concat (map commit_parts gs)) (gitText gs)"
proof -
  have "list_all2 in_order (map commit_parts gs) (map gitLine gs)"
    by (simp add: list_all2_map1 list_all2_map2 list_all2_same in_order_gitLine del: in_order.simps)
  then show ?thesis unfolding gitText_def by (rule in_order_join)
qed

section \<open>The section order of the prompt\<close>

lemma logLine_bullet: "logLine l = log_bullet l"
  by (simp add: logLine_def log_bullet_def)

lemma logsText_bullets: "logsText ls = join (js ''\<newline>'') (map log_bullet ls)"
  by (simp add: logsText_def nl_def logLine_bullet [abs_def])

lemma gitLine_entry: "gitLine g = commit_entry g"
proof (cases "diff g")
  case None
  then show ?thesis by (simp add: gitLine_def commit_entry_def commit_parts_def)
next
  case (Some d)
  then show ?thesis
    by (simp add: gitLine_def commit_entry_def commit_parts_def diffBlock_def nl_def)
qed

lemma gitText_entries: "gitText gs = join (js ''\<newline>'') (map commit_entry gs)"
  by (simp add: gitText_def nl_def gitLine_entry [abs_def])

lemma baseInstruction_of:
  "baseInstruction cfg ty = instruction_of ty (report_template cfg)"
  by (cases ty)
     (simp_all add: baseInstruction_def instruction_of_def analysis_instruction_def
        export_instruction_def)

lemma generatePrompt_parts_in_order:
  "in_order
     ([js ''Context:'', js ''Manual Logs:''] @ map logLine (logs st) @ [js ''Git Commits:'']
       @ concat (map commit_parts (gitLogs st))
       @ [js ''System Instruction:'', baseInstruction (config st) ty,
          js ''Additional User Rules:'', custom_rules (config st)])
     (generatePrompt st ty)"
proof -
  let ?rules = "custom_rules (config st)"
  let ?instr = "baseInstruction (config st) ty"
  let ?t4 = "nl @ indent @ js ''System Instruction:'' @ nl
        @ indent @ ?instr @ nl
        @ indent @ nl
        @ indent @ js ''Additional User Rules:'' @ nl
        @ indent @ ?rules @ nl
        @ js ''      ''"
  let ?n4 = "[js ''System Instruction:'', ?instr, js ''Additional User Rules:'', ?rules]"
  have "in_order [] (nl @ js ''      '')" by simp
  then have "in_order [?rules] (nl @ indent @ ?rules @ nl @ js ''      '')"
    by (rule in_order_line)
  then have "in_order [js ''Additional User Rules:'', ?rules]
     (nl @ indent @ js ''Additional User Rules:'' @ nl @ indent @ ?rules @ nl @ js ''      '')"
    by (rule in_order_line)
  then have "in_order [js ''Additional User Rules:'', ?rules]
     (nl @ indent @ nl @ indent @ js ''Additional User Rules:'' @ nl @ indent @ ?rules @ nl @ js ''      '')"
    by (rule in_order_skip2)
  then have "in_order [?instr, js ''Additional User Rules:'', ?rules]
     (nl @ indent @ ?instr @ nl @ indent @ nl @ indent @ js ''Additional User Rules:'' @ nl @ indent @ ?rules @ nl @ js ''      '')"
    by (rule in_order_line)
  then have t4: "in_order ?n4 ?t4"
    by (rule in_order_line)
  then have "in_order ?n4 (nl @ indent @ ?t4)"
    by (rule in_order_skip2)
  with in_order_gitText
  have "in_order (concat (map commit_parts (gitLogs st)) @ ?n4)
          (gitText (gitLogs st) @ nl @ indent @ ?t4)"
    by (rule in_order_append)
  then have "in_order (concat (map commit_parts (gitLogs st)) @ ?n4)
          (nl @ indent @ gitText (gitLogs st) @ nl @ indent @ ?t4)"
    by (rule in_order_skip2)
  then have "in_order (js ''Git Commits:'' # concat (map commit_parts (gitLogs st)) @ ?n4)
          (nl @ indent @ js ''Git Commits:'' @ nl @ indent @ gitText (gitLogs st) @ nl @ indent @ ?t4)"
    by (rule in_order_line)
  then have "in_order (js ''Git Commits:'' # concat (map commit_parts (gitLogs st)) @ ?n4)
          (nl @ indent @ nl @ indent @ js ''Git Commits:'' @ nl @ indent @ gitText (gitLogs st) @ nl @ indent @ ?t4)"
    by (rule in_order_skip2)
  with in_order_logsText
  have "in_order (map logLine (logs st) @ js ''Git Commits:'' # concat (map commit_parts (gitLogs st)) @ ?n4)
          (logsText (logs st) @ nl @ indent @ nl @ indent @ js ''Git Commits:'' @ nl @ indent @ gitText (gitLogs st) @ nl @ indent @ ?t4)"
    by (rule in_order_append)
  then have "in_order (map logLine (logs st) @ js ''Git Commits:'' # concat (map commit_parts (gitLogs st)) @ ?n4)
          (nl @ indent @ logsText (logs st) @ nl @ indent @ nl @ indent @ js ''Git Commits:'' @ nl @ indent @ gitText (gitLogs st) @ nl @ indent @ ?t4)"
    by (rule in_order_skip2)
  then have "in_order (js ''Manual Logs:'' # map logLine (logs st) @ js ''Git Commits:'' # concat (map commit_parts (gitLogs st)) @ ?n4)
          (nl @ indent @ js ''Manual Logs:'' @ nl @ indent @ logsText (logs st) @ nl @ indent @ nl @ indent @ js ''Git Commits:'' @ nl @ indent @ gitText (gitLogs st) @ nl @ indent @ ?t4)"
    by (rule in_order_line)
  then have "in_order (js ''Context:'' # js ''Manual Logs:'' # map logLine (logs st) @ js ''Git Commits:'' # concat (map commit_parts (gitLogs st)) @ ?n4)
          (nl @ indent @ js ''Context:'' @ nl @ indent @ js ''Manual Logs:'' @ nl @ indent @ logsText (logs st) @ nl @ indent @ nl @ indent @ js ''Git Commits:'' @ nl @ indent @ gitText (gitLogs st) @ nl @ indent @ ?t4)"
    by (rule in_order_line)
  then show ?thesis
    by (simp add: generatePrompt_def del: in_order.simps)
qed

text \<open>
  Claim C2. For every list of manual logs, every list of commits, either review mode and
  every rules and template text, the prompt is one string laid out in the fixed order:
  the context header; the manual-log section, whose body is one bullet line per log; the
  commit section, whose body is one entry per commit, the bullet line followed by the
  lines of the diff block when the commit has a non-empty diff and by nothing otherwise;
  the instruction section with the instruction of the mode; the section of the user
  rules. The sections and their parts occur in this order one after the other.
\<close>

theorem generatePrompt_section_order:
  "generatePrompt st ty
     = prompt_layout (join (js ''\<newline>'') (map log_bullet (logs st)))
         (join (js ''\<newline>'') (map commit_entry (gitLogs st)))
         (instruction_of ty (report_template (config st)))
         (custom_rules (config st))
   \<and> in_order (prompt_sections st ty) (generatePrompt st ty)"
proof
  show "generatePrompt st ty
     = prompt_layout (join (js ''\<newline>'') (map log_bullet (logs st)))
         (join (js ''\<newline>'') (map commit_entry (gitLogs st)))
         (instruction_of ty (report_template (config st)))
         (custom_rules (config st))"
    by (simp add: generatePrompt_def prompt_layout_def prompt_section_def blank_line_def
          logsText_bullets gitText_entries baseInstruction_of nl_def indent_def)
next
  have "map logLine (logs st) = map log_bullet (logs st)"
    by (simp add: logLine_bullet)
  then show "in_order (prompt_sections st ty) (generatePrompt st ty)"
    using generatePrompt_parts_in_order [of st ty]
    by (simp only: prompt_sections_def baseInstruction_of)
qed

lemma in_order_skip3: "in_order ns b \<Longrightarrow> in_order ns (a1 @ a2 @ a3 @ b)"
  by (rule in_order_skip, rule in_order_skip2)

lemma in_order_skip5: "in_order ns b \<Longrightarrow> in_order ns (a1 @ a2 @ a3 @ a4 @ a5 @ b)"
  by (rule in_order_skip3, rule in_order_skip2)

lemma generatePrompt_headers: "in_order section_headers (generatePrompt st ty)"
proof -
  let ?rules = "custom_rules (config st)"
  let ?instr = "baseInstruction (config st) ty"
  let ?t5 = "nl @ indent @ js ''Additional User Rules:'' @ nl @ indent @ ?rules @ nl
        @ js ''      ''"
  let ?t4 = "nl @ indent @ js ''System Instruction:'' @ nl @ indent @ ?instr @ nl @ indent @ ?t5"
  let ?t3 = "nl @ indent @ js ''Git Commits:'' @ nl @ indent @ gitText (gitLogs st) @ nl
        @ indent @ ?t4"
  have "in_order [] (nl @ indent @ ?rules @ nl @ js ''      '')" by simp
  then have "in_order [js ''Additional User Rules:''] ?t5"
    by (rule in_order_line)
  then have "in_order [js ''Additional User Rules:''] (nl @ indent @ ?instr @ nl @ indent @ ?t5)"
    by (rule in_order_skip5)
  then have "in_order [js ''System Instruction:'', js ''Additional User Rules:''] ?t4"
    by (rule in_order_line)
  then have "in_order [js ''System Instruction:'', js ''Additional User Rules:'']
      (nl @ indent @ gitText (gitLogs st) @ nl @ indent @ ?t4)"
    by (rule in_order_skip5)
  then have "in_order [js ''Git Commits:'', js ''System Instruction:'',
      js ''Additional User Rules:''] ?t3"
    by (rule in_order_line)
  then have "in_order [js ''Git Commits:'', js ''System Instruction:'',
      js ''Additional User Rules:''] (nl @ indent @ logsText (logs st) @ nl @ indent @ ?t3)"
    by (rule in_order_skip5)
  then have "in_order [js ''Manual Logs:'', js ''Git Commits:'', js ''System Instruction:'',
      js ''Additional User Rules:'']
      (nl @ indent @ js ''Manual Logs:'' @ nl @ indent @ logsText (logs st) @ nl @ indent @ ?t3)"
    by (rule in_order_line)
  then have "in_order [js ''Context:'', js ''Manual Logs:'', js ''Git Commits:'',
      js ''System Instruction:'', js ''Additional User Rules:'']
      (nl @ indent @ js ''Context:'' @ nl @ indent @ js ''Manual Logs:'' @ nl @ indent
         @ logsText (logs st) @ nl @ indent @ ?t3)"
    by (rule in_order_line)
  then show ?thesis
    by (simp add: section_headers_def generatePrompt_def del: in_order.simps)
qed

lemma generatePrompt_instruction_block:
  "sublist (instruction_block (baseInstruction (config st) ty)) (generatePrompt st ty)"
proof -
  have "generatePrompt st ty =
      (nl @ indent @ js ''Context:'' @ nl
        @ indent @ js ''Manual Logs:'' @ nl
        @ indent @ logsText (logs st) @ nl
        @ indent @ nl
        @ indent @ js ''Git Commits:'' @ nl
        @ indent @ gitText (gitLogs st) @ nl
        @ indent @ nl
        @ indent) @ instruction_block (baseInstruction (config st) ty) @
      (nl @ indent @ custom_rules (config st) @ nl @ js ''      '')"
    by (simp add: generatePrompt_def instruction_block_def)
  then show ?thesis by (simp only: sublist_appendI)
qed

section \<open>The prompt is a function of its inputs\<close>

text \<open>
  Claim C3. \<open>generatePrompt\<close> performs no I/O: its body calls neither \<open>invoke\<close> nor
  \<open>alert\<close> nor a state setter, so its embedding takes the React state and the mode and
  returns the string, without a backend and without a trace. Its result is determined by
  the logs, the commits, the mode, the user rules and the template: two states that agree
  on these give the same prompt, whatever else differs between them (the active tab, the
  pending input, the API key, the model, the previous review).
\<close>

theorem generatePrompt_deterministic:
  assumes "logs s1 = logs s2" and "gitLogs s1 = gitLogs s2"
    and "custom_rules (config s1) = custom_rules (config s2)"
    and "report_template (config s1) = report_template (config s2)"
  shows "generatePrompt s1 ty = generatePrompt s2 ty"
  using assms by (simp add: generatePrompt_def baseInstruction_def)

theorem generatePrompt_deterministic_witness:
  "logs busy_state = logs demo_state \<and> gitLogs busy_state = gitLogs demo_state
   \<and> custom_rules (config busy_state) = custom_rules (config demo_state)
   \<and> report_template (config busy_state) = report_template (config demo_state)
   \<and> busy_state \<noteq> demo_state
   \<and> generatePrompt busy_state Export = generatePrompt demo_state Export"
proof -
  have h: "logs busy_state = logs demo_state" "gitLogs busy_state = gitLogs demo_state"
    "custom_rules (config busy_state) = custom_rules (config demo_state)"
    "report_template (config busy_state) = report_template (config demo_state)"
    by (simp_all add: busy_state_def demo_state_def demo_config_def)
  have "activeTab busy_state \<noteq> activeTab demo_state"
    by (simp add: busy_state_def demo_state_def)
  then have "busy_state \<noteq> demo_state" by auto
  then show ?thesis
    using h generatePrompt_deterministic [OF h, of Export] by simp
qed

section \<open>The instruction of each mode\<close>

text \<open>
  Claim C6. In export mode the instruction block of the prompt is the order to follow the
  format strictly, followed by the template as it was supplied, code unit for code unit.
  In analysis mode the instruction block is one fixed directive, and the whole prompt
  does not depend on the template.
\<close>

theorem instruction_by_mode:
  "sublist (instruction_block (export_instruction (report_template (config st))))
     (generatePrompt st Export)
   \<and> sublist (instruction_block analysis_instruction) (generatePrompt st Analysis)
   \<and> generatePrompt (st\<lparr>config := (config st)\<lparr>report_template := t\<rparr>\<rparr>) Analysis
       = generatePrompt st Analysis"
proof -
  have e: "baseInstruction (config st) Export = export_instruction (report_template (config st))"
    by (simp add: baseInstruction_def export_instruction_def)
  have a: "baseInstruction (config st) Analysis = analysis_instruction"
    by (simp add: baseInstruction_def analysis_instruction_def)
  have "generatePrompt (st\<lparr>config := (config st)\<lparr>report_template := t\<rparr>\<rparr>) Analysis
       = generatePrompt st Analysis"
    by (simp add: generatePrompt_def baseInstruction_def)
  then show ?thesis
    using generatePrompt_instruction_block [of st Export]
      generatePrompt_instruction_block [of st Analysis]
    by (simp only: e a simp_thms)
qed

section \<open>Empty lists give empty sections\<close>

text \<open>
  Claim C7. The five section headers stand in every prompt, in their order. When there
  is no manual log, the header of the manual logs is followed by an empty body and then
  by the header of the commits; when there is no commit, the header of the commits is
  followed by an empty body and then by the header of the instruction.
\<close>

theorem empty_lists_keep_sections:
  "in_order section_headers (generatePrompt st ty)
   \<and> (logs st = [] \<longrightarrow> sublist empty_logs_section (generatePrompt st ty))
   \<and> (gitLogs st = [] \<longrightarrow> sublist empty_commits_section (generatePrompt st ty))"
proof (intro conjI impI)
  show "in_order section_headers (generatePrompt st ty)"
    by (rule generatePrompt_headers)
next
  assume l: "logs st = []"
  have "generatePrompt st ty =
      (nl @ indent @ js ''Context:'' @ nl @ indent) @ empty_logs_section @
      (nl @ indent @ gitText (gitLogs st) @ nl
        @ indent @ nl
        @ indent @ js ''System Instruction:'' @ nl
        @ indent @ baseInstruction (config st) ty @ nl
        @ indent @ nl
        @ indent @ js ''Additional User Rules:'' @ nl
        @ indent @ custom_rules (config st) @ nl
        @ js ''      '')"
    by (simp add: generatePrompt_def empty_logs_section_def logsText_def l)
  then show "sublist empty_logs_section (generatePrompt st ty)"
    by (simp only: sublist_appendI)
next
  assume g: "gitLogs st = []"
  have "generatePrompt st ty =
      (nl @ indent @ js ''Context:'' @ nl
        @ indent @ js ''Manual Logs:'' @ nl
        @ indent @ logsText (logs st) @ nl
        @ indent @ nl
        @ indent) @ empty_commits_section @
      (nl @ indent @ baseInstruction (config st) ty @ nl
        @ indent @ nl
        @ indent @ js ''Additional User Rules:'' @ nl
        @ indent @ custom_rules (config st) @ nl
        @ js ''      '')"
    by (simp add: generatePrompt_def empty_commits_section_def gitText_def g)
  then show "sublist empty_commits_section (generatePrompt st ty)"
    by (simp only: sublist_appendI)
qed

theorem empty_lists_keep_sections_witness:
  "logs blank_state = [] \<and> gitLogs blank_state = []
   \<and> in_order section_headers (generatePrompt blank_state Analysis)
   \<and> sublist empty_logs_section (generatePrompt blank_state Analysis)
   \<and> sublist empty_commits_section (generatePrompt blank_state Analysis)"
  using empty_lists_keep_sections [of blank_state Analysis]
  by (simp add: blank_state_def del: in_order.simps)


section \<open>The list of repository paths\<close>

lemma includes_js_iff: "includes_js xs x \<longleftrightarrow> x \<in> set xs"
  by (simp add: includes_js_def)

lemma git_paths_setNewGitPath: "git_paths (config (setNewGitPath v st)) = git_paths (config st)"
  by (simp add: setNewGitPath_def)

lemma distinct_addGitPath:
  "distinct (git_paths (config st)) \<Longrightarrow> distinct (git_paths (config (addGitPath st)))"
  by (simp add: addGitPath_def setNewGitPath_def updateConfig_git_paths_def includes_js_iff)

lemma distinct_removeGitPath:
  "distinct (git_paths (config st)) \<Longrightarrow> distinct (git_paths (config (removeGitPath p st)))"
  by (simp add: removeGitPath_def updateConfig_git_paths_def)

lemma distinct_path_step:
  "distinct (git_paths (config st)) \<Longrightarrow> distinct (git_paths (config (path_step a st)))"
  by (cases a) (simp_all add: git_paths_setNewGitPath distinct_addGitPath distinct_removeGitPath)

lemma distinct_fold_path_step:
  "distinct (git_paths (config st)) \<Longrightarrow> distinct (git_paths (config (fold path_step acts st)))"
  by (induction acts arbitrary: st) (simp_all add: distinct_path_step)

text \<open>
  Claim C9. Typing into the path input, adding and removing, in any number and order,
  keep a duplicate-free list of repository paths free of duplicates; and \<open>addGitPath\<close>
  changes nothing when the input is empty or already in the list.
\<close>

theorem git_paths_stay_distinct:
  "(distinct (git_paths (config st)) \<longrightarrow> distinct (git_paths (config (path_run acts st))))
   \<and> (newGitPath st = [] \<or> newGitPath st \<in> set (git_paths (config st)) \<longrightarrow> addGitPath st = st)"
  by (auto simp: path_run_def distinct_fold_path_step addGitPath_def includes_js_iff)

theorem git_paths_stay_distinct_witness:
  "distinct (git_paths (config demo_state))
   \<and> git_paths (config (path_run demo_actions demo_state))
        = [js ''/home/dev/app'', js ''/home/dev/./app'', js ''/srv/tool'']
   \<and> distinct (git_paths (config (path_run demo_actions demo_state)))
   \<and> newGitPath demo_state \<in> set (git_paths (config demo_state))
   \<and> addGitPath demo_state = demo_state"
proof -
  have d: "distinct (git_paths (config demo_state))"
    by (simp add: demo_state_def demo_config_def demo_paths_def js_def)
  have m: "newGitPath demo_state \<in> set (git_paths (config demo_state))"
    by (simp add: demo_state_def demo_config_def demo_paths_def)
  have r: "git_paths (config (path_run demo_actions demo_state))
        = [js ''/home/dev/app'', js ''/home/dev/./app'', js ''/srv/tool'']"
    by (simp add: path_run_def demo_actions_def demo_state_def demo_config_def demo_paths_def
          addGitPath_def removeGitPath_def setNewGitPath_def updateConfig_git_paths_def
          includes_js_iff js_def)
  show ?thesis
    using d m r git_paths_stay_distinct [of demo_state demo_actions] by simp
qed

section \<open>Adding a log\<close>

lemma trim_empty_iff: "trim s = [] \<longleftrightarrow> (\<forall>c\<in>set s. isWhiteSpace c)"
proof
  assume "trim s = []"
  then have all: "\<forall>c\<in>set (dropWhile isWhiteSpace s). isWhiteSpace c"
    by (simp add: trim_def dropWhile_eq_Nil_conv)
  have "dropWhile isWhiteSpace s = []"
  proof (rule ccontr)
    assume ne: "dropWhile isWhiteSpace s \<noteq> []"
    then have "\<not> isWhiteSpace (hd (dropWhile isWhiteSpace s))" by (rule hd_dropWhile)
    moreover have "hd (dropWhile isWhiteSpace s) \<in> set (dropWhile isWhiteSpace s)"
      using ne by simp
    ultimately show False using all by blast
  qed
  then show "\<forall>c\<in>set s. isWhiteSpace c" by (simp add: dropWhile_eq_Nil_conv)
next
  assume "\<forall>c\<in>set s. isWhiteSpace c"
  then have d: "dropWhile isWhiteSpace s = []" by (simp add: dropWhile_eq_Nil_conv)
  show "trim s = []" unfolding trim_def d by simp
qed

lemma filter_save_log_loadLogs:
  "filter is_save_log (trace (loadLogs be s)) = filter is_save_log (trace s)"
  by (simp add: loadLogs_def emit_def is_save_log_def Let_def split: prod.splits sum.splits)

lemma handleAddLog_blank: "trim (newLog (app s)) = [] \<Longrightarrow> handleAddLog be s = s"
  by (simp add: handleAddLog_def)

lemma handleAddLog_saves:
  "trim (newLog (app s)) \<noteq> [] \<Longrightarrow>
     filter is_save_log (trace (handleAddLog be s))
       = filter is_save_log (trace s) @ [Invoke_save_log (newLog (app s)) (js ''manual'')]"
  by (simp add: handleAddLog_def filter_save_log_loadLogs alert_def emit_def is_save_log_def
        Let_def split: prod.splits sum.splits)

text \<open>
  Claim C10. When the pending input is empty or holds white space only, \<open>handleAddLog\<close>
  leaves everything as it is: no command is sent, so \<open>save_log\<close> is not invoked, and the
  input is not cleared. Otherwise it invokes \<open>save_log\<close> exactly once, with the input as
  it was typed as content and \<open>manual\<close> as log type.
\<close>

theorem handleAddLog_blank_or_saved:
  "((\<forall>c\<in>set (newLog (app s)). isWhiteSpace c) \<longrightarrow>
       handleAddLog be s = s)
   \<and> (\<not> (\<forall>c\<in>set (newLog (app s)). isWhiteSpace c) \<longrightarrow>
       filter is_save_log (trace (handleAddLog be s))
         = filter is_save_log (trace s) @ [Invoke_save_log (newLog (app s)) (js ''manual'')])"
  using handleAddLog_blank [of s be] handleAddLog_saves [of s be]
  by (simp only: trim_empty_iff) blast

theorem handleAddLog_blank_or_saved_witness:
  "trim (newLog (app blank_input_sys)) = []
   \<and> handleAddLog (demo_backend demo_env) blank_input_sys = blank_input_sys
   \<and> trim (newLog (app demo_sys)) = js ''Wrote tests''
   \<and> filter is_save_log (trace (handleAddLog (demo_backend demo_env) demo_sys))
        = [Invoke_save_log (js ''Wrote tests'') (js ''manual'')]"
proof -
  have b: "\<forall>c\<in>set (newLog (app blank_input_sys)). isWhiteSpace c"
    by (simp add: blank_input_sys_def demo_sys_def isWhiteSpace_def js_def)
  have n: "\<not> (\<forall>c\<in>set (newLog (app demo_sys)). isWhiteSpace c)"
    by (simp add: demo_sys_def demo_state_def isWhiteSpace_def js_def)
  have t: "trace demo_sys = []" "newLog (app demo_sys) = js ''Wrote tests''"
    by (simp_all add: demo_sys_def demo_state_def)
  have "trim (js ''Wrote tests'') = js ''Wrote tests''"
    by (simp add: trim_def isWhiteSpace_def js_def)
  then show ?thesis
    using b n handleAddLog_blank_or_saved [of blank_input_sys "demo_backend demo_env"]
      handleAddLog_blank_or_saved [of demo_sys "demo_backend demo_env"]
    by (simp add: t trim_empty_iff)
qed

section \<open>The AI review without an API key\<close>

lemma handleAiReview_no_key:
  "api_key (config (app s)) = [] \<Longrightarrow>
     handleAiReview be mode s
       = s\<lparr>app := (app s)\<lparr>activeTab := SettingsTab\<rparr>,
           trace := trace s @ [Alert (js ''Please configure API Key in Settings first.'')]\<rparr>"
  by (simp add: handleAiReview_def alert_def emit_def)

text \<open>
  Claim C8. With an empty API key, \<open>handleAiReview\<close> in either mode invokes no
  \<open>call_ai\<close>, leaves the stored review result and the backend as they were, shows one
  alert and switches to the settings tab.
\<close>

theorem handleAiReview_without_key:
  assumes "api_key (config (app s)) = []"
  shows "filter is_call_ai (trace (handleAiReview be mode s)) = filter is_call_ai (trace s)
    \<and> reviewResult (app (handleAiReview be mode s)) = reviewResult (app s)
    \<and> activeTab (app (handleAiReview be mode s)) = SettingsTab
    \<and> world (handleAiReview be mode s) = world s
    \<and> trace (handleAiReview be mode s)
        = trace s @ [Alert (js ''Please configure API Key in Settings first.'')]"
  by (simp add: handleAiReview_no_key [OF assms] is_call_ai_def)

theorem handleAiReview_without_key_witness:
  "api_key (config (app no_key_sys)) = []
   \<and> filter is_call_ai (trace (handleAiReview (demo_backend demo_env) Export no_key_sys)) = []
   \<and> reviewResult (app (handleAiReview (demo_backend demo_env) Export no_key_sys))
        = js ''old review''
   \<and> activeTab (app (handleAiReview (demo_backend demo_env) Export no_key_sys)) = SettingsTab"
proof -
  have k: "api_key (config (app no_key_sys)) = []"
    by (simp add: no_key_sys_def)
  have t: "trace no_key_sys = []" "reviewResult (app no_key_sys) = js ''old review''"
    by (simp_all add: no_key_sys_def demo_sys_def demo_state_def)
  show ?thesis
    using k handleAiReview_without_key [OF k, of "demo_backend demo_env" Export]
    by (simp add: t is_call_ai_def)
qed


section \<open>Properties of the aggregator\<close>

lemma set_insert_commit: "set (insert_commit c xs) = insert c (set xs)"
  by (induction xs) auto

lemma set_sort_commits: "set (sort_commits cs) = set cs"
  by (induction cs) (simp_all add: sort_commits_def set_insert_commit)

lemma set_dedup_commits: "set (dedup_commits seen cs) \<subseteq> set cs"
  by (induction cs arbitrary: seen) auto

lemma dedup_commits_avoids_seen:
  "c \<in> set (dedup_commits seen cs) \<Longrightarrow> commit_key c \<notin> set seen"
proof (induction cs arbitrary: seen)
  case Nil
  then show ?case by simp
next
  case (Cons x cs)
  show ?case
  proof (cases "commit_key x \<in> set seen")
    case True
    with Cons.prems have "c \<in> set (dedup_commits seen cs)" by simp
    then show ?thesis by (rule Cons.IH)
  next
    case False
    with Cons.prems have "c = x \<or> c \<in> set (dedup_commits (commit_key x # seen) cs)"
      by simp
    then show ?thesis
    proof
      assume "c = x"
      with False show ?thesis by simp
    next
      assume "c \<in> set (dedup_commits (commit_key x # seen) cs)"
      then have "commit_key c \<notin> set (commit_key x # seen)" by (rule Cons.IH)
      then show ?thesis by simp
    qed
  qed
qed

lemma distinct_dedup_commits: "distinct (map commit_key (dedup_commits seen cs))"
proof (induction cs arbitrary: seen)
  case Nil
  then show ?case by simp
next
  case (Cons c cs)
  show ?case
  proof (cases "commit_key c \<in> set seen")
    case True
    then show ?thesis using Cons.IH by simp
  next
    case False
    have "commit_key c \<notin> commit_key ` set (dedup_commits (commit_key c # seen) cs)"
    proof
      assume "commit_key c \<in> commit_key ` set (dedup_commits (commit_key c # seen) cs)"
      then obtain x where x: "x \<in> set (dedup_commits (commit_key c # seen) cs)"
        "commit_key c = commit_key x" by blast
      from dedup_commits_avoids_seen [OF x(1)] x(2) show False by simp
    qed
    then show ?thesis using False Cons.IH by simp
  qed
qed

lemma scan_repository_origin:
  "c \<in> set (fst (scan_repository env w deepAnalysis path)) \<Longrightarrow>
     \<exists>repo raw. open_repository env path = Inr repo \<and> raw \<in> set (history repo)
        \<and> in_window w (raw_time raw)
        \<and> c = (identity repo, to_commit env path deepAnalysis raw)"
  by (auto simp: scan_repository_def extract_commits_def split: sum.splits)

lemma aggregate_origin:
  assumes "c \<in> set (tagged (aggregate env paths w deepAnalysis))"
  shows "\<exists>path repo raw. path \<in> set paths \<and> open_repository env path = Inr repo
        \<and> raw \<in> set (history repo) \<and> in_window w (raw_time raw)
        \<and> c = (identity repo, to_commit env path deepAnalysis raw)"
proof -
  from assms have "c \<in> set (concat (map fst (map (scan_repository env w deepAnalysis) paths)))"
    using set_dedup_commits set_sort_commits by (fastforce simp: aggregate_def Let_def)
  then obtain path where "path \<in> set paths"
    "c \<in> set (fst (scan_repository env w deepAnalysis path))" by auto
  then show ?thesis using scan_repository_origin by blast
qed

lemma commits_origin:
  assumes "g \<in> set (commits (scan env paths deepAnalysis))"
  shows "\<exists>path raw. g = to_commit env path deepAnalysis raw"
proof -
  from assms obtain c where "c \<in> set (tagged (aggregate env paths (default_window env) deepAnalysis))"
    "g = snd c" by (auto simp: commits_def scan_def)
  then show ?thesis using aggregate_origin by fastforce
qed

lemma length_truncate_diff:
  "length (truncate_diff env t) \<le> max_diff_chars env + length (truncation_marker env)"
  by (simp add: truncate_diff_def)

lemma summarize_diff_bound:
  "summarize_diff env ch = Some d \<Longrightarrow>
     length d \<le> max_diff_chars env + length (truncation_marker env)"
  by (cases ch) (auto simp: summarize_diff_def length_truncate_diff)

lemma distinct_tagged_aggregate:
  "distinct (map commit_key (tagged (aggregate env paths w deepAnalysis)))"
  by (simp add: aggregate_def Let_def distinct_dedup_commits)

lemma distinct_hash_same_identity:
  assumes "distinct (map commit_key cs)" and "\<forall>c\<in>set cs. fst c = i"
  shows "distinct (map hash (map snd cs))"
proof -
  have "map commit_key cs = map (Pair i) (map hash (map snd cs))"
    using assms(2) by (induction cs) (auto simp: commit_key_def)
  with assms(1) show ?thesis by (metis distinct_map)
qed

lemma demo_scan_deep:
  "scan demo_env demo_paths True =
     \<lparr>tagged =
        [(js ''/home/dev/app'',
          \<lparr>hash = js ''b2'', message = js ''Add parser'', author = js ''dev'', time = 200,
            repo_name = Some (js ''app''), diff = Some (js ''+line one [cut]'')\<rparr>),
         (js ''/home/dev/app'',
          \<lparr>hash = js ''a1'', message = js ''Initial'', author = js ''dev'', time = 100,
            repo_name = Some (js ''app''), diff = Some (js ''initial co[cut]'')\<rparr>)],
      warnings = [(js ''/nowhere'', RepositoryNotFound)]\<rparr>"
  by (simp add: scan_def aggregate_def scan_repository_def extract_commits_def in_window_def
        to_commit_def summarize_diff_def truncate_diff_def sort_commits_def commit_before_def
        commit_key_def demo_env_def demo_repo_def demo_paths_def js_def)

lemma demo_scan_shallow:
  "commits (scan demo_env demo_paths False) =
     [\<lparr>hash = js ''b2'', message = js ''Add parser'', author = js ''dev'', time = 200,
        repo_name = Some (js ''app''), diff = None\<rparr>,
      \<lparr>hash = js ''a1'', message = js ''Initial'', author = js ''dev'', time = 100,
        repo_name = Some (js ''app''), diff = None\<rparr>]"
  by (simp add: commits_def scan_def aggregate_def scan_repository_def extract_commits_def in_window_def
        to_commit_def summarize_diff_def truncate_diff_def sort_commits_def commit_before_def
        commit_key_def demo_env_def demo_repo_def demo_paths_def js_def)

lemma to_commit_shallow: "diff (to_commit env path False raw) = None"
  by (simp add: to_commit_def)

lemma to_commit_diff_bound:
  "diff (to_commit env path deepAnalysis raw) = Some d \<Longrightarrow>
     length d \<le> max_diff_chars env + length (truncation_marker env)"
  by (auto simp: to_commit_def summarize_diff_bound split: if_splits)

lemma handleSyncGit_reply:
  assumes "git_paths (config (app s)) \<noteq> []"
    and "fst (scan_git_repos be (git_paths (config (app s))) (deep_analysis (config (app s)))
              (world s)) = Inr cs"
  shows "gitLogs (app (handleSyncGit be s)) = cs"
    and "take (Suc (length (trace s))) (trace (handleSyncGit be s))
          = trace s @ [Invoke_scan_git_repos (git_paths (config (app s)))
                          (deep_analysis (config (app s)))]"
  using assms
  by (auto simp: handleSyncGit_def alert_def emit_def Let_def split: prod.splits)

text \<open>
  Claim C4. A scan without deep analysis returns only commits whose diff field is unset.
  The flag is one boolean argument of the scan: \<open>handleSyncGit\<close> passes the configured
  value along with the paths, and when the backend answers with the result of the scan
  for that value, the commits it stores carry no diff.
\<close>

theorem deep_analysis_off_no_diff:
  "(\<not> deepAnalysis \<longrightarrow> (\<forall>g\<in>set (commits (scan env paths deepAnalysis)). diff g = None))
   \<and> (git_paths (config (app s)) \<noteq> [] \<and> \<not> deep_analysis (config (app s))
       \<and> fst (scan_git_repos be (git_paths (config (app s))) False (world s))
            = Inr (commits (scan env (git_paths (config (app s))) False))
       \<longrightarrow> take (Suc (length (trace s))) (trace (handleSyncGit be s))
             = trace s @ [Invoke_scan_git_repos (git_paths (config (app s))) False]
           \<and> (\<forall>g\<in>set (gitLogs (app (handleSyncGit be s))). diff g = None))"
proof -
  have shallow: "\<forall>g\<in>set (commits (scan env ps False)). diff g = None" for ps
    using commits_origin [of _ env ps False] to_commit_shallow by fastforce
  show ?thesis
  proof (intro conjI impI)
    assume "\<not> deepAnalysis"
    then show "\<forall>g\<in>set (commits (scan env paths deepAnalysis)). diff g = None"
      using shallow by simp
  next
    assume a: "git_paths (config (app s)) \<noteq> [] \<and> \<not> deep_analysis (config (app s))
       \<and> fst (scan_git_repos be (git_paths (config (app s))) False (world s))
            = Inr (commits (scan env (git_paths (config (app s))) False))"
    then show "take (Suc (length (trace s))) (trace (handleSyncGit be s))
             = trace s @ [Invoke_scan_git_repos (git_paths (config (app s))) False]"
      using handleSyncGit_reply(2) [of s be] by simp
  next
    assume a: "git_paths (config (app s)) \<noteq> [] \<and> \<not> deep_analysis (config (app s))
       \<and> fst (scan_git_repos be (git_paths (config (app s))) False (world s))
            = Inr (commits (scan env (git_paths (config (app s))) False))"
    then have "gitLogs (app (handleSyncGit be s))
                 = commits (scan env (git_paths (config (app s))) False)"
      using handleSyncGit_reply(1) [of s be] by simp
    then show "\<forall>g\<in>set (gitLogs (app (handleSyncGit be s))). diff g = None"
      using shallow by simp
  qed
qed

theorem deep_analysis_off_no_diff_witness:
  "map diff (commits (scan demo_env demo_paths False)) = [None, None]
   \<and> git_paths (config (app demo_sys)) \<noteq> [] \<and> \<not> deep_analysis (config (app demo_sys))
   \<and> trace (handleSyncGit (demo_backend demo_env) demo_sys)
        = [Invoke_scan_git_repos demo_paths False]
   \<and> map diff (gitLogs (app (handleSyncGit (demo_backend demo_env) demo_sys))) = [None, None]"
proof -
  have h: "git_paths (config (app demo_sys)) \<noteq> [] \<and> \<not> deep_analysis (config (app demo_sys))
       \<and> fst (scan_git_repos (demo_backend demo_env) (git_paths (config (app demo_sys))) False
                 (world demo_sys))
            = Inr (commits (scan demo_env (git_paths (config (app demo_sys))) False))"
    by (simp add: demo_sys_def demo_state_def demo_config_def demo_backend_def demo_paths_def)
  have p: "git_paths (config (app demo_sys)) = demo_paths" "trace demo_sys = []"
    by (simp_all add: demo_sys_def demo_state_def demo_config_def)
  have "length (commits (scan demo_env demo_paths False)) = 2"
    by (simp add: demo_scan_shallow)
  moreover have "\<forall>g\<in>set (commits (scan demo_env demo_paths False)). diff g = None"
    and "trace (handleSyncGit (demo_backend demo_env) demo_sys)
           = [Invoke_scan_git_repos demo_paths False]"
    and "gitLogs (app (handleSyncGit (demo_backend demo_env) demo_sys))
           = commits (scan demo_env demo_paths False)"
    using h deep_analysis_off_no_diff
      [of False demo_env demo_paths demo_sys "demo_backend demo_env"]
    by (simp_all add: p handleSyncGit_def emit_def demo_backend_def)
  ultimately show ?thesis using h
    by (simp add: demo_scan_shallow)
qed

text \<open>
  Claim C5. In the result of a scan no two commits have the same repository identity and
  hash. When all configured paths that can be opened resolve to one repository, every
  hash occurs at most once among the returned commits.
\<close>

theorem scan_unique_commits:
  "distinct (map commit_key (tagged (scan env paths deepAnalysis)))
   \<and> ((\<forall>p\<in>set paths. \<forall>repo. open_repository env p = Inr repo \<longrightarrow> identity repo = i)
        \<longrightarrow> distinct (map hash (commits (scan env paths deepAnalysis))))"
proof (intro conjI impI)
  show d: "distinct (map commit_key (tagged (scan env paths deepAnalysis)))"
    by (simp add: scan_def distinct_tagged_aggregate)
  assume same: "\<forall>p\<in>set paths. \<forall>repo. open_repository env p = Inr repo \<longrightarrow> identity repo = i"
  have "\<forall>c\<in>set (tagged (scan env paths deepAnalysis)). fst c = i"
  proof
    fix c assume "c \<in> set (tagged (scan env paths deepAnalysis))"
    then obtain path repo raw where "path \<in> set paths" "open_repository env path = Inr repo"
      "c = (identity repo, to_commit env path deepAnalysis raw)"
      using aggregate_origin [of c env paths "default_window env" deepAnalysis]
      by (auto simp: scan_def)
    with same show "fst c = i" by auto
  qed
  with d show "distinct (map hash (commits (scan env paths deepAnalysis)))"
    unfolding commits_def by (rule distinct_hash_same_identity)
qed

theorem scan_unique_commits_witness:
  "open_repository demo_env (demo_paths ! 0) = Inr demo_repo
   \<and> open_repository demo_env (demo_paths ! 1) = Inr demo_repo
   \<and> open_repository demo_env (demo_paths ! 2) = Inl RepositoryNotFound
   \<and> map hash (commits (scan demo_env demo_paths False)) = [js ''b2'', js ''a1'']
   \<and> distinct (map hash (commits (scan demo_env demo_paths False)))
   \<and> distinct (map commit_key (tagged (scan demo_env demo_paths False)))"
proof -
  have same: "\<forall>p\<in>set demo_paths. \<forall>repo. open_repository demo_env p = Inr repo \<longrightarrow>
       identity repo = js ''/home/dev/app''"
    by (simp add: demo_paths_def demo_env_def demo_repo_def)
  have "open_repository demo_env (demo_paths ! 0) = Inr demo_repo"
    "open_repository demo_env (demo_paths ! 1) = Inr demo_repo"
    "open_repository demo_env (demo_paths ! 2) = Inl RepositoryNotFound"
    by (simp_all add: demo_paths_def demo_env_def js_def)
  then show ?thesis
    using same scan_unique_commits [of demo_env demo_paths False "js ''/home/dev/app''"]
    by (simp add: demo_scan_shallow)
qed

lemma dedup_commits_keeps_keys:
  "c \<in> set cs \<Longrightarrow>
     commit_key c \<in> set seen \<or> commit_key c \<in> commit_key ` set (dedup_commits seen cs)"
proof (induction cs arbitrary: seen)
  case Nil
  then show ?case by simp
next
  case (Cons x cs)
  show ?case
  proof (cases "c = x")
    case True
    then show ?thesis by simp
  next
    case False
    with Cons.prems have c: "c \<in> set cs" by simp
    show ?thesis
    proof (cases "commit_key x \<in> set seen")
      case True
      then show ?thesis using Cons.IH [OF c, of seen] by simp
    next
      case False
      then show ?thesis using Cons.IH [OF c, of "commit_key x # seen"] by auto
    qed
  qed
qed

lemma aggregate_complete:
  assumes "path \<in> set paths" and "open_repository env path = Inr repo"
    and "raw \<in> set (history repo)" and "in_window w (raw_time raw)"
  shows "\<exists>c\<in>set (tagged (aggregate env paths w deepAnalysis)).
           commit_key c = (identity repo, raw_hash raw)"
proof -
  let ?c = "(identity repo, to_commit env path deepAnalysis raw)"
  have "?c \<in> set (fst (scan_repository env w deepAnalysis path))"
    using assms(2-4) by (simp add: scan_repository_def extract_commits_def)
  with assms(1)
  have "?c \<in> set (concat (map fst (map (scan_repository env w deepAnalysis) paths)))"
    by auto
  then have "?c \<in> set (sort_commits
      (concat (map fst (map (scan_repository env w deepAnalysis) paths))))"
    by (simp only: set_sort_commits)
  from dedup_commits_keeps_keys [OF this, of "[]"]
  have "commit_key ?c \<in> commit_key ` set (tagged (aggregate env paths w deepAnalysis))"
    by (simp add: aggregate_def Let_def)
  moreover have "commit_key ?c = (identity repo, raw_hash raw)"
    by (simp add: commit_key_def to_commit_def)
  ultimately show ?thesis by auto
qed

lemma to_commit_deep_text:
  "raw_change raw = TextChange t \<Longrightarrow>
     diff (to_commit env path True raw)
       = Some (if length t > max_diff_chars env
               then take (max_diff_chars env) t @ truncation_marker env else t)"
  by (simp add: to_commit_def summarize_diff_def truncate_diff_def)

lemma scan_deep_origin:
  assumes "c \<in> set (tagged (scan env paths True))"
  shows "\<exists>path\<in>set paths. \<exists>repo. open_repository env path = Inr repo
       \<and> fst c = identity repo
       \<and> (\<exists>raw\<in>set (history repo). in_window (default_window env) (raw_time raw)
            \<and> hash (snd c) = raw_hash raw
            \<and> (\<forall>t. raw_change raw = TextChange t \<longrightarrow>
                  diff (snd c) = Some (if length t > max_diff_chars env
                     then take (max_diff_chars env) t @ truncation_marker env else t)))"
proof -
  from assms obtain path repo raw where o: "path \<in> set paths"
    "open_repository env path = Inr repo" "raw \<in> set (history repo)"
    "in_window (default_window env) (raw_time raw)"
    "c = (identity repo, to_commit env path True raw)"
    using aggregate_origin [of c env paths "default_window env" True]
    by (auto simp: scan_def)
  have "hash (snd c) = raw_hash raw" using o(5) by (simp add: to_commit_def)
  moreover have "\<forall>t. raw_change raw = TextChange t \<longrightarrow>
      diff (snd c) = Some (if length t > max_diff_chars env
         then take (max_diff_chars env) t @ truncation_marker env else t)"
    using o(5) by (simp add: to_commit_deep_text)
  ultimately have "\<exists>raw\<in>set (history repo). in_window (default_window env) (raw_time raw)
            \<and> hash (snd c) = raw_hash raw
            \<and> (\<forall>t. raw_change raw = TextChange t \<longrightarrow>
                  diff (snd c) = Some (if length t > max_diff_chars env
                     then take (max_diff_chars env) t @ truncation_marker env else t))"
    using o(3,4) by (intro bexI [of _ raw] conjI)
  moreover have "fst c = identity repo" using o(5) by simp
  ultimately show ?thesis using o(1,2) by (intro bexI [of _ path] exI [of _ repo] conjI)
qed

lemma scan_deep_keeps_long_diff:
  assumes p: "path \<in> set paths" and r: "open_repository env path = Inr repo"
    and h: "raw \<in> set (history repo)" and w: "in_window (default_window env) (raw_time raw)"
    and t: "raw_change raw = TextChange t" and l: "length t > max_diff_chars env"
    and u: "hash_identifies_change env paths"
  shows "\<exists>g. (identity repo, g) \<in> set (tagged (scan env paths True))
       \<and> hash g = raw_hash raw
       \<and> diff g = Some (take (max_diff_chars env) t @ truncation_marker env)"
proof -
  from aggregate_complete [OF p r h w, of True]
  obtain c where c: "c \<in> set (tagged (scan env paths True))"
    "commit_key c = (identity repo, raw_hash raw)"
    by (auto simp: scan_def)
  from c(1) obtain path' repo' raw' where o: "path' \<in> set paths"
    "open_repository env path' = Inr repo'" "raw' \<in> set (history repo')"
    "c = (identity repo', to_commit env path' True raw')"
    using aggregate_origin [of c env paths "default_window env" True]
    by (auto simp: scan_def)
  from c(2) o(4) have same: "identity repo' = identity repo" "raw_hash raw' = raw_hash raw"
    by (simp_all add: commit_key_def to_commit_def)
  have "identity repo = identity repo' \<longrightarrow>
      (\<forall>a\<in>set (history repo). \<forall>b\<in>set (history repo').
         raw_hash a = raw_hash b \<longrightarrow> raw_change a = raw_change b)"
    using u [unfolded hash_identifies_change_def, rule_format, OF p o(1)]
    by (simp add: r o(2))
  then have "\<forall>a\<in>set (history repo). \<forall>b\<in>set (history repo').
         raw_hash a = raw_hash b \<longrightarrow> raw_change a = raw_change b"
    using same(1) by simp
  then have "raw_hash raw = raw_hash raw' \<longrightarrow> raw_change raw = raw_change raw'"
    using h o(3) by blast
  with same(2) have "raw_change raw' = raw_change raw" by simp
  with t have "raw_change raw' = TextChange t" by simp
  then have "diff (snd c) = Some (take (max_diff_chars env) t @ truncation_marker env)"
    using o(4) l by (simp add: to_commit_deep_text)
  moreover have "hash (snd c) = raw_hash raw" using o(4) same by (simp add: to_commit_def)
  moreover have "(identity repo, snd c) \<in> set (tagged (scan env paths True))"
    using c(1) o(4) same(1) by simp
  ultimately show ?thesis by (intro exI [of _ "snd c"] conjI)
qed

text \<open>
  Claim C1. A textual diff longer than the maximum is summarized as its first
  \<open>max_diff_chars\<close> code units followed by the truncation marker, and that is the value
  attached to the commit. Every commit that a scan with deep analysis returns stems from
  a stored commit of a configured repository, and when that change is textual its diff
  field holds the text itself or, for a text over the maximum, exactly the cut text plus
  the marker. No over-long diff is dropped: where hashes identify commits, every stored
  commit in the window with a textual change over the maximum is returned with exactly
  the cut text plus the marker. So every diff attached to a returned commit is at most
  the maximum plus the marker long. The consumers in \<open>App.tsx\<close> get this attached
  value: the prompt embeds it unchanged in the diff block of the commit, and the preview
  shows its first 150 code units.
\<close>

theorem diff_summary_bounded:
  "(length t > max_diff_chars env \<longrightarrow>
       summarize_diff env (TextChange t)
         = Some (take (max_diff_chars env) t @ truncation_marker env))
   \<and> (\<forall>g\<in>set (commits (scan env paths deepAnalysis)). \<forall>d. diff g = Some d \<longrightarrow>
         length d \<le> max_diff_chars env + length (truncation_marker env)
         \<and> (d \<noteq> [] \<longrightarrow>
              gitLine g = js ''- ['' @ toString_opt (repo_name g) @ js ''] '' @ message g
                            @ diffBlock d
              \<and> diffPreview g = Some (take 150 d @ js ''...'')))
   \<and> (\<forall>c\<in>set (tagged (scan env paths True)).
         \<exists>path\<in>set paths. \<exists>repo. open_repository env path = Inr repo
           \<and> fst c = identity repo
           \<and> (\<exists>raw\<in>set (history repo). in_window (default_window env) (raw_time raw)
                \<and> hash (snd c) = raw_hash raw
                \<and> (\<forall>t. raw_change raw = TextChange t \<longrightarrow>
                      diff (snd c) = Some (if length t > max_diff_chars env
                         then take (max_diff_chars env) t @ truncation_marker env else t))))
   \<and> (path \<in> set paths \<and> open_repository env path = Inr repo \<and> raw \<in> set (history repo)
        \<and> in_window (default_window env) (raw_time raw)
        \<and> raw_change raw = TextChange t \<and> length t > max_diff_chars env
        \<and> hash_identifies_change env paths
       \<longrightarrow> (\<exists>g. (identity repo, g) \<in> set (tagged (scan env paths True))
              \<and> hash g = raw_hash raw
              \<and> diff g = Some (take (max_diff_chars env) t @ truncation_marker env)))"
proof (intro conjI)
  show "length t > max_diff_chars env \<longrightarrow>
       summarize_diff env (TextChange t)
         = Some (take (max_diff_chars env) t @ truncation_marker env)"
    by (simp add: summarize_diff_def truncate_diff_def)
next
  show "\<forall>g\<in>set (commits (scan env paths deepAnalysis)). \<forall>d. diff g = Some d \<longrightarrow>
         length d \<le> max_diff_chars env + length (truncation_marker env)
         \<and> (d \<noteq> [] \<longrightarrow>
              gitLine g = js ''- ['' @ toString_opt (repo_name g) @ js ''] '' @ message g
                            @ diffBlock d
              \<and> diffPreview g = Some (take 150 d @ js ''...''))"
  proof (intro ballI allI impI conjI)
    fix g d
    assume "g \<in> set (commits (scan env paths deepAnalysis))" and d: "diff g = Some d"
    then obtain path raw where "g = to_commit env path deepAnalysis raw"
      using commits_origin by blast
    with d show "length d \<le> max_diff_chars env + length (truncation_marker env)"
      using to_commit_diff_bound by blast
  next
    fix g :: GitCommit and d
    assume "diff g = Some d" "d \<noteq> []"
    then show "gitLine g = js ''- ['' @ toString_opt (repo_name g) @ js ''] '' @ message g
                            @ diffBlock d"
      by (simp add: gitLine_def)
  next
    fix g :: GitCommit and d
    assume "diff g = Some d" "d \<noteq> []"
    then show "diffPreview g = Some (take 150 d @ js ''...'')"
      by (simp add: diffPreview_def substring0_def)
  qed
next
  show "\<forall>c\<in>set (tagged (scan env paths True)).
         \<exists>path\<in>set paths. \<exists>repo. open_repository env path = Inr repo
           \<and> fst c = identity repo
           \<and> (\<exists>raw\<in>set (history repo). in_window (default_window env) (raw_time raw)
                \<and> hash (snd c) = raw_hash raw
                \<and> (\<forall>t. raw_change raw = TextChange t \<longrightarrow>
                      diff (snd c) = Some (if length t > max_diff_chars env
                         then take (max_diff_chars env) t @ truncation_marker env else t)))"
    by (rule ballI) (rule scan_deep_origin)
next
  show "path \<in> set paths \<and> open_repository env path = Inr repo \<and> raw \<in> set (history repo)
        \<and> in_window (default_window env) (raw_time raw)
        \<and> raw_change raw = TextChange t \<and> length t > max_diff_chars env
        \<and> hash_identifies_change env paths
       \<longrightarrow> (\<exists>g. (identity repo, g) \<in> set (tagged (scan env paths True))
              \<and> hash g = raw_hash raw
              \<and> diff g = Some (take (max_diff_chars env) t @ truncation_marker env))"
  proof (rule impI, elim conjE)
    assume "path \<in> set paths" "open_repository env path = Inr repo"
      "raw \<in> set (history repo)" "in_window (default_window env) (raw_time raw)"
      "raw_change raw = TextChange t" "length t > max_diff_chars env"
      "hash_identifies_change env paths"
    then show "\<exists>g. (identity repo, g) \<in> set (tagged (scan env paths True))
              \<and> hash g = raw_hash raw
              \<and> diff g = Some (take (max_diff_chars env) t @ truncation_marker env)"
      by (rule scan_deep_keeps_long_diff)
  qed
qed

theorem diff_summary_bounded_witness:
  "length (js ''+line one of a long change'') > max_diff_chars demo_env
   \<and> summarize_diff demo_env (TextChange (js ''+line one of a long change''))
       = Some (js ''+line one [cut]'')
   \<and> hash_identifies_change demo_env demo_paths
   \<and> demo_raw \<in> set (history demo_repo)
   \<and> (\<exists>g. (js ''/home/dev/app'', g) \<in> set (tagged (scan demo_env demo_paths True))
          \<and> hash g = js ''b2'' \<and> diff g = Some (js ''+line one [cut]''))
   \<and> demo_commit \<in> set (commits (scan demo_env demo_paths True))
   \<and> diff demo_commit = Some (js ''+line one [cut]'')
   \<and> length (js ''+line one [cut]'') \<le> max_diff_chars demo_env + length (truncation_marker demo_env)
   \<and> gitLine demo_commit
       = js ''- [app] Add parser'' @ nl @ js ''  Code Diff Summary:'' @ nl @ js ''```'' @ nl
           @ js ''+line one [cut]'' @ nl @ js ''```''
   \<and> diffPreview demo_commit = Some (js ''+line one [cut]...'')"
proof -
  let ?t = "js ''+line one of a long change''"
  note inst = diff_summary_bounded [where env = demo_env and t = ?t and paths = demo_paths
      and deepAnalysis = True and path = "js ''/home/dev/app''" and repo = demo_repo
      and raw = demo_raw]
  have m: "demo_commit \<in> set (commits (scan demo_env demo_paths True))"
    by (simp add: commits_def demo_scan_deep demo_commit_def)
  have d: "diff demo_commit = Some (js ''+line one [cut]'')"
    by (simp add: demo_commit_def)
  have l: "length ?t > max_diff_chars demo_env"
    by (simp add: demo_env_def js_def)
  have ne: "js ''+line one [cut]'' \<noteq> []" by (simp add: js_def)
  have u: "hash_identifies_change demo_env demo_paths"
    by (simp add: hash_identifies_change_def demo_env_def demo_paths_def demo_repo_def js_def)
  have o: "js ''/home/dev/app'' \<in> set demo_paths"
    "open_repository demo_env (js ''/home/dev/app'') = Inr demo_repo"
    "demo_raw \<in> set (history demo_repo)"
    "in_window (default_window demo_env) (raw_time demo_raw)"
    "raw_change demo_raw = TextChange ?t"
    by (simp_all add: demo_paths_def demo_env_def demo_repo_def demo_raw_def in_window_def)
  have cut: "take (max_diff_chars demo_env) ?t @ truncation_marker demo_env
               = js ''+line one [cut]''"
    by (simp add: demo_env_def js_def)
  have i: "identity demo_repo = js ''/home/dev/app''" "raw_hash demo_raw = js ''b2''"
    by (simp_all add: demo_repo_def demo_raw_def)
  note c1 = inst [THEN conjunct1]
  note c2 = inst [THEN conjunct2, THEN conjunct1, rule_format]
  note c4 = inst [THEN conjunct2, THEN conjunct2, THEN conjunct2, rule_format]
  from c1 l have "summarize_diff demo_env (TextChange ?t)
      = Some (take (max_diff_chars demo_env) ?t @ truncation_marker demo_env)"
    by simp
  then have s: "summarize_diff demo_env (TextChange ?t) = Some (js ''+line one [cut]'')"
    by (simp only: cut)
  have "\<exists>g. (identity demo_repo, g) \<in> set (tagged (scan demo_env demo_paths True))
          \<and> hash g = raw_hash demo_raw
          \<and> diff g = Some (take (max_diff_chars demo_env) ?t @ truncation_marker demo_env)"
    using o l u by (intro c4 conjI)
  then have e: "\<exists>g. (js ''/home/dev/app'', g) \<in> set (tagged (scan demo_env demo_paths True))
          \<and> hash g = js ''b2'' \<and> diff g = Some (js ''+line one [cut]'')"
    by (simp only: cut i)
  from c2 [OF m d]
  have "length (js ''+line one [cut]'')
           \<le> max_diff_chars demo_env + length (truncation_marker demo_env)"
    and "gitLine demo_commit = js ''- ['' @ toString_opt (repo_name demo_commit) @ js ''] ''
           @ message demo_commit @ diffBlock (js ''+line one [cut]'')"
    and "diffPreview demo_commit = Some (take 150 (js ''+line one [cut]'') @ js ''...'')"
    using ne by simp_all
  then show ?thesis using m d l s u o(3) e
    by (simp add: demo_env_def demo_commit_def diffBlock_def toString_opt_def js_def)
qed

end
